theory Spec2Isabelle
  imports Complex_Main "HOL-Library.Word"
begin

section \<open>Typed arrays\<close>

text \<open>
  The renderer works on JavaScript typed arrays. An element read with an index outside
  the array yields \<open>undefined\<close> (here \<open>None\<close>); an element write with an index outside
  the array is ignored without an error. Indices and counters are JavaScript numbers that
  only ever hold integers here, so they are \<open>int\<close>: subtraction can go below zero.
\<close>

definition typed_get :: "'a list \<Rightarrow> int \<Rightarrow> 'a option" where
  "typed_get xs i = (if 0 \<le> i \<and> i < int (length xs) then Some (xs ! nat i) else None)"

definition typed_set :: "'a list \<Rightarrow> int \<Rightarrow> 'a \<Rightarrow> 'a list" where
  "typed_set xs i v = (if 0 \<le> i \<and> i < int (length xs) then xs[nat i := v] else xs)"

text \<open>
  A \<open>Uint16Array\<close> or \<open>Int16Array\<close> element is a 16-bit word; storing a number keeps it
  modulo \<open>2 ^ 16\<close>.
\<close>

type_synonym uint16 = "16 word"
type_synonym int16 = "16 word"

definition set16 :: "16 word list \<Rightarrow> int \<Rightarrow> int \<Rightarrow> 16 word list" where
  "set16 xs i v = typed_set xs i (word_of_int v)"

text \<open>
  A \<open>Float32Array\<close> element is a number that is not NaN, given by its bits, or NaN.
  Reading an element and storing it into another \<open>Float32Array\<close> keeps it as it is;
  storing \<open>undefined\<close> stores NaN.
\<close>

datatype f32 = F32 "32 word" | NaN

definition setFloat32 :: "f32 list \<Rightarrow> int \<Rightarrow> f32 option \<Rightarrow> f32 list" where
  "setFloat32 xs i v = typed_set xs i (case v of None \<Rightarrow> NaN | Some x \<Rightarrow> x)"

section \<open>The quad template\<close>

definition maxQuadsPerDrawCall :: int where
  "maxQuadsPerDrawCall = 64"

text \<open>
  Modelled from the spec: the struct arrays \<open>StructArrayLayout2i4\<close> and
  \<open>StructArrayLayout3ui6\<close> (\<open>data/array_types\<close>) are not among the sources. After
  \<open>resize(n)\<close> and \<open>_trim()\<close> a fresh array holds exactly \<open>n\<close> zeroed elements: two
  \<open>int16\<close> per vertex in the first layout, three \<open>uint16\<close> (one triangle) per element
  in the second.
\<close>

definition StructArrayLayout2i4_resized :: "int \<Rightarrow> int16 list" where
  "StructArrayLayout2i4_resized n = replicate (nat n * 2) 0"

definition StructArrayLayout3ui6_resized :: "int \<Rightarrow> uint16 list" where
  "StructArrayLayout3ui6_resized n = replicate (nat n * 3) 0"

text \<open>Triangle \<open>t\<close> of a \<open>StructArrayLayout3ui6\<close>: its three vertex indices.\<close>

definition triangle :: "uint16 list \<Rightarrow> nat \<Rightarrow> nat list" where
  "triangle u16 t = map unat [u16 ! (3 * t), u16 ! (3 * t + 1), u16 ! (3 * t + 2)]"

text \<open>The loop of lines 64 to 67, from counter \<open>i\<close>.\<close>

function vertexLoop :: "int \<Rightarrow> int \<Rightarrow> int16 list \<Rightarrow> int16 list" where
  "vertexLoop i maxVerticesPerDrawCall int16 =
     (if i < maxVerticesPerDrawCall then
        (let a0 = set16 int16 (i * 2 + 0) i;
             a1 = set16 a0 (i * 2 + 1) i
         in vertexLoop (i + 1) maxVerticesPerDrawCall a1)
      else int16)"
  by pat_completeness auto
termination
  by (relation "measure (\<lambda>(i, n, a). nat (n - i))") auto

definition vertexBuffer2_array :: "int16 list" where
  "vertexBuffer2_array =
     (let maxVerticesPerDrawCall = maxQuadsPerDrawCall * 4;
          array = StructArrayLayout2i4_resized maxVerticesPerDrawCall
      in vertexLoop 0 maxVerticesPerDrawCall array)"

text \<open>The loop of lines 80 to 89, from counter \<open>i\<close>.\<close>

function indexLoop :: "int \<Rightarrow> int \<Rightarrow> uint16 list \<Rightarrow> uint16 list" where
  "indexLoop i maxTrianglesPerDrawCall uint16 =
     (if i < maxTrianglesPerDrawCall then
        (let idx = i * 6;
             a0 = set16 uint16 (idx + 0) (i * 4 + 0);
             a1 = set16 a0 (idx + 1) (i * 4 + 1);
             a2 = set16 a1 (idx + 2) (i * 4 + 2);
             a3 = set16 a2 (idx + 3) (i * 4 + 2);
             a4 = set16 a3 (idx + 4) (i * 4 + 3);
             a5 = set16 a4 (idx + 5) (i * 4 + 0)
         in indexLoop (i + 1) maxTrianglesPerDrawCall a5)
      else uint16)"
  by pat_completeness auto
termination
  by (relation "measure (\<lambda>(i, n, a). nat (n - i))") auto

definition indexBuffer2_array :: "uint16 list" where
  "indexBuffer2_array =
     (let maxTrianglesPerDrawCall = maxQuadsPerDrawCall * 2;
          array = StructArrayLayout3ui6_resized maxTrianglesPerDrawCall
      in indexLoop 0 maxTrianglesPerDrawCall array)"

section \<open>The collaborators\<close>

text \<open>
  The function takes a painter, a source cache, a style layer, tile coordinates, a
  translation with its anchor and the text/icon flag, and it calls into \<open>gl-matrix\<close>.
  Matrices are values of a type \<open>'m\<close> that the function never inspects; buffer sets of a
  bucket are values of a type \<open>'b\<close>. What the function reads of each collaborator is a
  field of a record.
\<close>

datatype error = TypeError

datatype translateAnchor = Map_anchor | Viewport_anchor

datatype primitive = LINES | TRIANGLES

text \<open>
  \<open>bucket.collisionCircleArrayTemp\<close>: \<open>arr.length\<close> circles, four floats each, read
  through the view \<open>arr.float32\<close>.
\<close>

record CollisionCircleArray =
  arr_length :: nat
  float32 :: "f32 list"

record ('m, 'b) SymbolBucket =
  textCollisionBox :: "'b option"
  iconCollisionBox :: "'b option"
  collisionCircleArrayTemp :: CollisionCircleArray
  placementInvProjMatrix :: 'm
  placementViewportMatrix :: 'm

text \<open>A tile, with the result of \<open>tile.getBucket(layer)\<close> for the layer drawn.\<close>

record ('m, 'b) Tile =
  tileKey :: nat
  getBucket :: "('m, 'b) SymbolBucket option"

record 'm OverscaledTileID =
  key :: nat
  posMatrix :: 'm

text \<open>
  \<open>sourceCache.getTile(coord)\<close>. A coordinate without a tile gives \<open>undefined\<close>, and the
  call \<open>tile.getBucket(layer)\<close> on it throws a \<open>TypeError\<close>.
\<close>

type_synonym ('m, 'b) SourceCache = "'m OverscaledTileID \<Rightarrow> ('m, 'b) Tile option"

record ('m, 'b) Painter =
  translatePosMatrix :: "'m \<Rightarrow> ('m, 'b) Tile \<Rightarrow> real \<times> real \<Rightarrow> translateAnchor \<Rightarrow> 'm"
  glCoordMatrix :: 'm

text \<open>
  \<open>mat4.create()\<close> and \<open>mat4.mul(out, a, b)\<close> of \<open>gl-matrix\<close>: \<open>mat4_mul a b\<close> is the
  matrix that the call leaves in \<open>out\<close>, for the values \<open>a\<close> and \<open>b\<close> hold when it is
  called (\<open>out\<close> may be \<open>a\<close> itself). No law of arithmetic is assumed of it.
\<close>

record 'm gl_matrix =
  mat4_create :: 'm
  mat4_mul :: "'m \<Rightarrow> 'm \<Rightarrow> 'm"

record StyleLayer =
  vertexBuffer2 :: "int16 list option"
  indexBuffer2 :: "uint16 list option"

text \<open>
  Modelled from the spec: \<open>SegmentVector.simpleSegment\<close> (\<open>data/segment\<close>) is not among
  the sources. Its arguments are the window of a draw call: the vertex offset, the
  primitive offset, the number of vertices and the number of primitives.
\<close>

record segment =
  vertexOffset :: int
  primitiveOffset :: int
  vertexLength :: int
  primitiveLength :: int

definition simpleSegment :: "int \<Rightarrow> int \<Rightarrow> int \<Rightarrow> int \<Rightarrow> segment" where
  "simpleSegment vo po vl pl =
     \<lparr>vertexOffset = vo, primitiveOffset = po, vertexLength = vl, primitiveLength = pl\<rparr>"

text \<open>
  Modelled from the spec: \<open>collisionUniformValues\<close> and \<open>collisionCircleUniformValues\<close>
  (\<open>render/program/collision_program\<close>) are not among the sources; the uniform values of
  a draw call are kept as the arguments they are built from. A draw call is the record of
  the arguments of \<open>program.draw\<close> that vary: the modes, the layer id and the zoom are the
  same in every call and left out.
\<close>

record ('m, 'b) boxDraw =
  box_primitive :: primitive
  box_posMatrix :: 'm
  box_tile :: "('m, 'b) Tile"
  box_buffers :: 'b

record 'm circleDraw =
  primitive :: primitive
  u_batchTransform :: 'm
  u_batchInvTransform :: 'm
  u_quadProperties :: "f32 list"
  layoutVertexBuffer :: "int16 list"
  indexBuffer :: "uint16 list"
  segments :: segment

section \<open>The box path\<close>

text \<open>The body of the loop of lines 25 to 47, for one coordinate.\<close>

definition boxTile ::
  "('m, 'b) Painter \<Rightarrow> ('m, 'b) SourceCache \<Rightarrow> 'm OverscaledTileID \<Rightarrow> real \<times> real \<Rightarrow>
   translateAnchor \<Rightarrow> bool \<Rightarrow> error + ('m, 'b) boxDraw list" where
  "boxTile painter sourceCache coord translate anchor isText =
     (case sourceCache coord of
        None \<Rightarrow> Inl TypeError
      | Some tile \<Rightarrow>
          (case getBucket tile of
             None \<Rightarrow> Inr []
           | Some bucket \<Rightarrow>
               (case (if isText then textCollisionBox bucket else iconCollisionBox bucket) of
                  None \<Rightarrow> Inr []
                | Some buffers \<Rightarrow>
                    (let posMatrix' =
                           (if fst translate \<noteq> 0 \<or> snd translate \<noteq> 0
                            then translatePosMatrix painter (posMatrix coord) tile translate anchor
                            else posMatrix coord)
                     in Inr [\<lparr>box_primitive = LINES, box_posMatrix = posMatrix',
                              box_tile = tile, box_buffers = buffers\<rparr>]))))"

fun boxPath ::
  "('m, 'b) Painter \<Rightarrow> ('m, 'b) SourceCache \<Rightarrow> 'm OverscaledTileID list \<Rightarrow> real \<times> real \<Rightarrow>
   translateAnchor \<Rightarrow> bool \<Rightarrow> error + ('m, 'b) boxDraw list" where
  "boxPath painter sourceCache [] translate anchor isText = Inr []"
| "boxPath painter sourceCache (coord # coords) translate anchor isText =
     (case boxTile painter sourceCache coord translate anchor isText of
        Inl e \<Rightarrow> Inl e
      | Inr ds \<Rightarrow>
          (case boxPath painter sourceCache coords translate anchor isText of
             Inl e \<Rightarrow> Inl e
           | Inr ds' \<Rightarrow> Inr (ds @ ds')))"

section \<open>The circle path\<close>

text \<open>
  The state of the packing loop of one tile: the scratch buffer \<open>quadProperties\<close>, the
  counters \<open>batchQuadIdx\<close> and \<open>quadOffset\<close>, and the draw calls issued so far.
\<close>

record 'm packState =
  quadProperties :: "f32 list"
  batchQuadIdx :: int
  quadOffset :: int
  draws :: "'m circleDraw list"

text \<open>The body of the copy loop, lines 136 to 140, for one \<open>qIdx\<close>.\<close>

definition copyQuad :: "CollisionCircleArray \<Rightarrow> int \<Rightarrow> f32 list \<times> int \<Rightarrow> f32 list \<times> int" where
  "copyQuad arr qIdx st =
     (case st of (qp, bqi) \<Rightarrow>
        (let q0 = setFloat32 qp (bqi * 4 + 0) (typed_get (float32 arr) (qIdx * 4 + 0));
             q1 = setFloat32 q0 (bqi * 4 + 1) (typed_get (float32 arr) (qIdx * 4 + 1));
             q2 = setFloat32 q1 (bqi * 4 + 2) (typed_get (float32 arr) (qIdx * 4 + 2));
             q3 = setFloat32 q2 (bqi * 4 + 3) (typed_get (float32 arr) (qIdx * 4 + 3))
         in (q3, bqi + 1)))"

text \<open>The copy loop of lines 135 to 141, from \<open>qIdx\<close> up to \<open>quadOffset + batchSize\<close>.\<close>

function copyLoop ::
  "CollisionCircleArray \<Rightarrow> int \<Rightarrow> int \<Rightarrow> f32 list \<times> int \<Rightarrow> f32 list \<times> int" where
  "copyLoop arr qIdx bound st =
     (if qIdx < bound then copyLoop arr (qIdx + 1) bound (copyQuad arr qIdx st) else st)"
  by pat_completeness auto
termination
  by (relation "measure (\<lambda>(arr, qIdx, bound, st). nat (bound - qIdx))") auto

text \<open>The same loop, listing the scratch buffer and \<open>batchQuadIdx\<close> after each round.\<close>

function copyStates ::
  "CollisionCircleArray \<Rightarrow> int \<Rightarrow> int \<Rightarrow> f32 list \<times> int \<Rightarrow> (f32 list \<times> int) list" where
  "copyStates arr qIdx bound st =
     (if qIdx < bound
      then copyQuad arr qIdx st # copyStates arr (qIdx + 1) bound (copyQuad arr qIdx st)
      else [])"
  by pat_completeness auto
termination
  by (relation "measure (\<lambda>(arr, qIdx, bound, st). nat (bound - qIdx))") auto

text \<open>Lines 130 to 132.\<close>

definition batchSize :: "CollisionCircleArray \<Rightarrow> 'm packState \<Rightarrow> int" where
  "batchSize arr s =
     (let quadsLeft = int (arr_length arr) - quadOffset s;
          quadSpaceInBatch = maxQuadsPerDrawCall - batchQuadIdx s
      in min quadsLeft quadSpaceInBatch)"

text \<open>Lines 130 to 143: one packing step, up to the advance of \<open>quadOffset\<close>.\<close>

definition packCopy :: "CollisionCircleArray \<Rightarrow> 'm packState \<Rightarrow> 'm packState" where
  "packCopy arr s =
     (case copyLoop arr (quadOffset s) (quadOffset s + batchSize arr s)
             (quadProperties s, batchQuadIdx s) of
        (qp, bqi) \<Rightarrow>
          s\<lparr>quadProperties := qp, batchQuadIdx := bqi, quadOffset := quadOffset s + batchSize arr s\<rparr>)"

text \<open>The draw call of lines 147 to 171, and of lines 180 to 204.\<close>

definition flush ::
  "'m \<Rightarrow> 'm \<Rightarrow> int16 list \<Rightarrow> uint16 list \<Rightarrow> 'm packState \<Rightarrow> 'm circleDraw" where
  "flush bT bInv vb ib s =
     \<lparr>primitive = TRIANGLES, u_batchTransform = bT, u_batchInvTransform = bInv,
      u_quadProperties = quadProperties s, layoutVertexBuffer = vb, indexBuffer = ib,
      segments = simpleSegment 0 0 (batchQuadIdx s * 4) (batchQuadIdx s * 2)\<rparr>"

text \<open>The body of the loop of lines 129 to 175.\<close>

definition packIter ::
  "CollisionCircleArray \<Rightarrow> 'm \<Rightarrow> 'm \<Rightarrow> int16 list \<Rightarrow> uint16 list \<Rightarrow> 'm packState \<Rightarrow>
   'm packState" where
  "packIter arr bT bInv vb ib s =
     (let s' = packCopy arr s
      in if batchQuadIdx s' = maxQuadsPerDrawCall
         then s'\<lparr>draws := draws s' @ [flush bT bInv vb ib s'], batchQuadIdx := 0\<rparr>
         else s')"

text \<open>
  The loop of lines 129 to 175. From a state with \<open>batchQuadIdx\<close> above 64 the loop of
  the source never ends (\<open>batchSize\<close> is negative and \<open>quadOffset\<close> falls), so the loop
  is a partial function: \<open>None\<close> when it does not return.
\<close>

partial_function (option) packLoop ::
  "CollisionCircleArray \<Rightarrow> 'm \<Rightarrow> 'm \<Rightarrow> int16 list \<Rightarrow> uint16 list \<Rightarrow> 'm packState \<Rightarrow>
   'm packState option" where
  "packLoop arr bT bInv vb ib s =
     (if quadOffset s < int (arr_length arr)
      then packLoop arr bT bInv vb ib (packIter arr bT bInv vb ib s)
      else Some s)"

text \<open>The same loop, listing the state at the top of each round it runs.\<close>

partial_function (option) packHeads ::
  "CollisionCircleArray \<Rightarrow> 'm \<Rightarrow> 'm \<Rightarrow> int16 list \<Rightarrow> uint16 list \<Rightarrow> 'm packState \<Rightarrow>
   'm packState list option" where
  "packHeads arr bT bInv vb ib s =
     (if quadOffset s < int (arr_length arr)
      then Option.bind (packHeads arr bT bInv vb ib (packIter arr bT bInv vb ib s))
             (\<lambda>hs. Some (s # hs))
      else Some [])"

text \<open>The state in which the packing loop of a tile starts (lines 126 and 127).\<close>

definition packStart :: "f32 list \<Rightarrow> 'm packState" where
  "packStart qp = \<lparr>quadProperties = qp, batchQuadIdx = 0, quadOffset = 0, draws = []\<rparr>"

text \<open>Lines 120 to 124: the matrix \<open>batchInvTransform\<close> of one tile.\<close>

definition reproject :: "'m gl_matrix \<Rightarrow> ('m, 'b) Painter \<Rightarrow> ('m, 'b) SymbolBucket \<Rightarrow> 'm" where
  "reproject mat4 painter bucket =
     (let batchInvTransform = mat4_create mat4;
          batchInvTransform =
            mat4_mul mat4 (placementInvProjMatrix bucket) (glCoordMatrix painter);
          batchInvTransform =
            mat4_mul mat4 batchInvTransform (placementViewportMatrix bucket)
      in batchInvTransform)"

text \<open>
  Lines 113 to 205: the circle path for a bucket whose array is not empty, from the
  scratch buffer \<open>qp\<close> the tiles before left. The result is the draw calls issued and the
  scratch buffer afterwards; \<open>None\<close> when the loop does not return.
\<close>

definition drawCircles ::
  "'m gl_matrix \<Rightarrow> ('m, 'b) Painter \<Rightarrow> 'm OverscaledTileID \<Rightarrow> ('m, 'b) Tile \<Rightarrow>
   ('m, 'b) SymbolBucket \<Rightarrow> real \<times> real \<Rightarrow> translateAnchor \<Rightarrow> int16 list \<Rightarrow> uint16 list \<Rightarrow>
   f32 list \<Rightarrow> ('m circleDraw list \<times> f32 list) option" where
  "drawCircles mat4 painter coord tile bucket translate anchor vb ib qp =
     (let arr = collisionCircleArrayTemp bucket;
          posMatrix' =
            (if fst translate \<noteq> 0 \<or> snd translate \<noteq> 0
             then translatePosMatrix painter (posMatrix coord) tile translate anchor
             else posMatrix coord);
          bInv = reproject mat4 painter bucket;
          bT = posMatrix'
      in case packLoop arr bT bInv vb ib (packStart qp) of
           None \<Rightarrow> None
         | Some s \<Rightarrow>
             Some (if batchQuadIdx s \<noteq> 0
                   then (draws s @ [flush bT bInv vb ib s], quadProperties s)
                   else (draws s, quadProperties s)))"

text \<open>The body of the loop of lines 102 to 206, for one coordinate.\<close>

definition circleTile ::
  "'m gl_matrix \<Rightarrow> ('m, 'b) Painter \<Rightarrow> ('m, 'b) SourceCache \<Rightarrow> 'm OverscaledTileID \<Rightarrow>
   real \<times> real \<Rightarrow> translateAnchor \<Rightarrow> int16 list \<Rightarrow> uint16 list \<Rightarrow> f32 list \<Rightarrow>
   (error + 'm circleDraw list \<times> f32 list) option" where
  "circleTile mat4 painter sourceCache coord translate anchor vb ib qp =
     (case sourceCache coord of
        None \<Rightarrow> Some (Inl TypeError)
      | Some tile \<Rightarrow>
          (case getBucket tile of
             None \<Rightarrow> Some (Inr ([], qp))
           | Some bucket \<Rightarrow>
               if arr_length (collisionCircleArrayTemp bucket) = 0 then Some (Inr ([], qp))
               else map_option Inr
                      (drawCircles mat4 painter coord tile bucket translate anchor vb ib qp)))"

fun circlePath ::
  "'m gl_matrix \<Rightarrow> ('m, 'b) Painter \<Rightarrow> ('m, 'b) SourceCache \<Rightarrow> 'm OverscaledTileID list \<Rightarrow>
   real \<times> real \<Rightarrow> translateAnchor \<Rightarrow> int16 list \<Rightarrow> uint16 list \<Rightarrow> f32 list \<Rightarrow>
   (error + 'm circleDraw list \<times> f32 list) option" where
  "circlePath mat4 painter sourceCache [] translate anchor vb ib qp = Some (Inr ([], qp))"
| "circlePath mat4 painter sourceCache (coord # coords) translate anchor vb ib qp =
     (case circleTile mat4 painter sourceCache coord translate anchor vb ib qp of
        None \<Rightarrow> None
      | Some (Inl e) \<Rightarrow> Some (Inl e)
      | Some (Inr (ds, qp')) \<Rightarrow>
          (case circlePath mat4 painter sourceCache coords translate anchor vb ib qp' of
             None \<Rightarrow> None
           | Some (Inl e) \<Rightarrow> Some (Inl e)
           | Some (Inr (ds', qp'')) \<Rightarrow> Some (Inr (ds @ ds', qp''))))"

section \<open>The whole function\<close>

text \<open>
  \<open>drawCollisionDebug\<close>: the box path, the quad template created once and kept on the
  layer, a fresh scratch buffer of \<open>64 * 4\<close> zeroed floats, the circle path. The result
  is the layer afterwards and the draw calls of both paths.
\<close>

definition drawCollisionDebug ::
  "'m gl_matrix \<Rightarrow> ('m, 'b) Painter \<Rightarrow> ('m, 'b) SourceCache \<Rightarrow> StyleLayer \<Rightarrow>
   'm OverscaledTileID list \<Rightarrow> real \<times> real \<Rightarrow> translateAnchor \<Rightarrow> bool \<Rightarrow>
   (error + StyleLayer \<times> ('m, 'b) boxDraw list \<times> 'm circleDraw list) option" where
  "drawCollisionDebug mat4 painter sourceCache layer coords translate anchor isText =
     (case boxPath painter sourceCache coords translate anchor isText of
        Inl e \<Rightarrow> Some (Inl e)
      | Inr boxes \<Rightarrow>
          (let vb = (case vertexBuffer2 layer of None \<Rightarrow> vertexBuffer2_array | Some v \<Rightarrow> v);
               ib = (case indexBuffer2 layer of None \<Rightarrow> indexBuffer2_array | Some v \<Rightarrow> v);
               layer' = layer\<lparr>vertexBuffer2 := Some vb, indexBuffer2 := Some ib\<rparr>;
               qp = replicate (nat (maxQuadsPerDrawCall * 4)) (F32 0)
           in case circlePath mat4 painter sourceCache coords translate anchor vb ib qp of
                None \<Rightarrow> None
              | Some (Inl e) \<Rightarrow> Some (Inl e)
              | Some (Inr (circles, qp')) \<Rightarrow> Some (Inr (layer', boxes, circles))))"

section \<open>Observations of a run\<close>

text \<open>
  The values \<open>batchQuadIdx\<close> holds in one round of the packing loop entered in state
  \<open>s\<close>: on entry, after each increment of the copy loop, and at the end of the round
  (after the reset, when the batch was flushed).
\<close>

definition roundIdxs ::
  "CollisionCircleArray \<Rightarrow> 'm \<Rightarrow> 'm \<Rightarrow> int16 list \<Rightarrow> uint16 list \<Rightarrow> 'm packState \<Rightarrow>
   int list" where
  "roundIdxs arr bT bInv vb ib s =
     batchQuadIdx s #
     map snd (copyStates arr (quadOffset s) (quadOffset s + batchSize arr s)
               (quadProperties s, batchQuadIdx s)) @
     [batchQuadIdx (packIter arr bT bInv vb ib s)]"

text \<open>All values \<open>batchQuadIdx\<close> holds while the loop runs from state \<open>s\<close>.\<close>

definition batchQuadIdxValues ::
  "CollisionCircleArray \<Rightarrow> 'm \<Rightarrow> 'm \<Rightarrow> int16 list \<Rightarrow> uint16 list \<Rightarrow> 'm packState \<Rightarrow>
   int list option" where
  "batchQuadIdxValues arr bT bInv vb ib s =
     map_option (\<lambda>hs. batchQuadIdx s # concat (map (roundIdxs arr bT bInv vb ib) hs))
       (packHeads arr bT bInv vb ib s)"

text \<open>The circles the copy loop reads in the round entered in state \<open>s\<close>, in order.\<close>

definition copiedCircles :: "CollisionCircleArray \<Rightarrow> 'm packState \<Rightarrow> int list" where
  "copiedCircles arr s = [quadOffset s .. quadOffset s + batchSize arr s - 1]"

text \<open>
  The float that a copy stores for element \<open>j\<close> of \<open>arr.float32\<close>, and the floats of the
  circles from \<open>a\<close> up to \<open>b\<close>.
\<close>

definition stored :: "CollisionCircleArray \<Rightarrow> nat \<Rightarrow> f32" where
  "stored arr j = (case typed_get (float32 arr) (int j) of None \<Rightarrow> NaN | Some x \<Rightarrow> x)"

definition circleFloats :: "CollisionCircleArray \<Rightarrow> nat \<Rightarrow> nat \<Rightarrow> f32 list" where
  "circleFloats arr a b = map (stored arr) [4 * a ..< 4 * b]"

text \<open>The floats of the quads that the window of a draw call covers.\<close>

definition drawnQuads :: "'m circleDraw \<Rightarrow> f32 list" where
  "drawnQuads d = take (4 * nat (primitiveLength (segments d) div 2)) (u_quadProperties d)"

text \<open>The sizes of the batches that \<open>n\<close> circles are packed into.\<close>

definition batchSizes :: "nat \<Rightarrow> int list" where
  "batchSizes n = replicate (n div 64) 64 @ (if 0 < n mod 64 then [int (n mod 64)] else [])"

section \<open>Example inputs\<close>

text \<open>
  In the examples a matrix is the name of the expression that computes it, a buffer set
  is a number, and circle \<open>i\<close> of the array holds the floats with the bits \<open>4 * i\<close> to
  \<open>4 * i + 3\<close>.
\<close>

definition exMul :: "string \<Rightarrow> string \<Rightarrow> string" where
  "exMul a b = ''('' @ a @ '' x '' @ b @ '')''"

definition exMat4 :: "string gl_matrix" where
  "exMat4 = \<lparr>mat4_create = ''identity'', mat4_mul = exMul\<rparr>"

definition exTranslate ::
  "string \<Rightarrow> (string, nat) Tile \<Rightarrow> real \<times> real \<Rightarrow> translateAnchor \<Rightarrow> string" where
  "exTranslate m tile translate anchor = ''translated('' @ m @ '')''"

definition exPainter :: "(string, nat) Painter" where
  "exPainter = \<lparr>translatePosMatrix = exTranslate, glCoordMatrix = ''glCoord''\<rparr>"

definition exArr :: "nat \<Rightarrow> CollisionCircleArray" where
  "exArr n = \<lparr>arr_length = n, float32 = map (\<lambda>j. F32 (of_nat j)) [0 ..< 4 * n]\<rparr>"

definition exBucket :: "nat \<Rightarrow> (string, nat) SymbolBucket" where
  "exBucket n =
     \<lparr>textCollisionBox = Some 7, iconCollisionBox = None,
      collisionCircleArrayTemp = exArr n,
      placementInvProjMatrix = ''invProj'', placementViewportMatrix = ''viewport''\<rparr>"

definition exTile :: "nat \<Rightarrow> (string, nat) Tile" where
  "exTile n = \<lparr>tileKey = 1, getBucket = Some (exBucket n)\<rparr>"

definition exTileNoBucket :: "(string, nat) Tile" where
  "exTileNoBucket = \<lparr>tileKey = 2, getBucket = None\<rparr>"

definition exCoord :: "string OverscaledTileID" where
  "exCoord = \<lparr>key = 1, posMatrix = ''pos''\<rparr>"

definition exCache :: "nat \<Rightarrow> (string, nat) SourceCache" where
  "exCache n coord = Some (exTile n)"

definition exCacheNoBucket :: "(string, nat) SourceCache" where
  "exCacheNoBucket coord = Some exTileNoBucket"

definition exScratch :: "f32 list" where
  "exScratch = replicate 256 (F32 0)"

text \<open>The number that the loop of lines 80 to 89 stores at index \<open>j\<close> of the view.\<close>

definition indexValue :: "nat \<Rightarrow> int" where
  "indexValue j = int (j div 6) * 4 + [0, 1, 2, 2, 3, 0] ! (j mod 6)"

section \<open>The run of one tile in closed form\<close>

text \<open>
  The draw calls that the circle path issues for one coordinate: the list is empty when
  the path throws or does not return.
\<close>

definition circleDraws ::
  "'m gl_matrix \<Rightarrow> ('m, 'b) Painter \<Rightarrow> ('m, 'b) SourceCache \<Rightarrow> 'm OverscaledTileID \<Rightarrow>
   real \<times> real \<Rightarrow> translateAnchor \<Rightarrow> int16 list \<Rightarrow> uint16 list \<Rightarrow> f32 list \<Rightarrow>
   'm circleDraw list" where
  "circleDraws mat4 painter sourceCache coord translate anchor vb ib qp =
     (case circleTile mat4 painter sourceCache coord translate anchor vb ib qp of
        Some (Inr (ds, qp')) \<Rightarrow> ds
      | _ \<Rightarrow> [])"

text \<open>The matrix that lines 32 to 35, and lines 113 to 116, compute.\<close>

definition tileMatrix ::
  "('m, 'b) Painter \<Rightarrow> 'm OverscaledTileID \<Rightarrow> ('m, 'b) Tile \<Rightarrow> real \<times> real \<Rightarrow> translateAnchor \<Rightarrow> 'm" where
  "tileMatrix painter coord tile translate anchor =
     (if fst translate \<noteq> 0 \<or> snd translate \<noteq> 0
      then translatePosMatrix painter (posMatrix coord) tile translate anchor
      else posMatrix coord)"

text \<open>
  Batch \<open>i\<close> of an array, when it is full, and the scratch buffer at the top of round
  \<open>i\<close> of the loop: the buffer the tile started with, then the batch before.
\<close>

definition fullBatch :: "CollisionCircleArray \<Rightarrow> nat \<Rightarrow> f32 list" where
  "fullBatch arr i = circleFloats arr (64 * i) (64 * i + 64)"

definition scratchAt :: "CollisionCircleArray \<Rightarrow> f32 list \<Rightarrow> nat \<Rightarrow> f32 list" where
  "scratchAt arr qp i = (if i = 0 then qp else fullBatch arr (i - 1))"

text \<open>A draw call over the scratch buffer \<open>Q\<close> with \<open>b\<close> quads in the batch.\<close>

definition circleDrawCall ::
  "'m \<Rightarrow> 'm \<Rightarrow> int16 list \<Rightarrow> uint16 list \<Rightarrow> f32 list \<Rightarrow> int \<Rightarrow> 'm circleDraw" where
  "circleDrawCall bT bInv vb ib Q b =
     \<lparr>primitive = TRIANGLES, u_batchTransform = bT, u_batchInvTransform = bInv,
      u_quadProperties = Q, layoutVertexBuffer = vb, indexBuffer = ib,
      segments = simpleSegment 0 0 (b * 4) (b * 2)\<rparr>"

definition fullDraws ::
  "CollisionCircleArray \<Rightarrow> 'm \<Rightarrow> 'm \<Rightarrow> int16 list \<Rightarrow> uint16 list \<Rightarrow> nat \<Rightarrow> 'm circleDraw list" where
  "fullDraws arr bT bInv vb ib k =
     map (\<lambda>i. circleDrawCall bT bInv vb ib (fullBatch arr i) 64) [0 ..< k]"

text \<open>The state at the top of round \<open>i\<close>, and the state in which the loop ends.\<close>

definition headState ::
  "CollisionCircleArray \<Rightarrow> 'm \<Rightarrow> 'm \<Rightarrow> int16 list \<Rightarrow> uint16 list \<Rightarrow> f32 list \<Rightarrow> nat \<Rightarrow>
   'm packState" where
  "headState arr bT bInv vb ib qp i =
     \<lparr>quadProperties = scratchAt arr qp i, batchQuadIdx = 0, quadOffset = 64 * int i,
      draws = fullDraws arr bT bInv vb ib i\<rparr>"

definition scratchEnd :: "CollisionCircleArray \<Rightarrow> f32 list \<Rightarrow> f32 list" where
  "scratchEnd arr qp =
     (let n = arr_length arr; k = n div 64; r = n mod 64
      in if r = 0 then scratchAt arr qp k
         else circleFloats arr (64 * k) n @ drop (4 * r) (scratchAt arr qp k))"

definition endState ::
  "CollisionCircleArray \<Rightarrow> 'm \<Rightarrow> 'm \<Rightarrow> int16 list \<Rightarrow> uint16 list \<Rightarrow> f32 list \<Rightarrow> 'm packState" where
  "endState arr bT bInv vb ib qp =
     \<lparr>quadProperties = scratchEnd arr qp, batchQuadIdx = int (arr_length arr mod 64),
      quadOffset = int (arr_length arr),
      draws = fullDraws arr bT bInv vb ib (arr_length arr div 64)\<rparr>"

text \<open>The draw calls of one tile: the full batches, then the batch left over.\<close>

definition tileDraws ::
  "CollisionCircleArray \<Rightarrow> 'm \<Rightarrow> 'm \<Rightarrow> int16 list \<Rightarrow> uint16 list \<Rightarrow> f32 list \<Rightarrow>
   'm circleDraw list" where
  "tileDraws arr bT bInv vb ib qp =
     fullDraws arr bT bInv vb ib (arr_length arr div 64) @
     (if arr_length arr mod 64 \<noteq> 0
      then [circleDrawCall bT bInv vb ib (scratchEnd arr qp) (int (arr_length arr mod 64))]
      else [])"

section \<open>Typed arrays: lemmas\<close>

declare vertexLoop.simps [simp del] indexLoop.simps [simp del]
declare copyLoop.simps [simp del] copyStates.simps [simp del]

lemma length_typed_set [simp]: "length (typed_set xs i v) = length xs"
  by (simp add: typed_set_def)

lemma nth_typed_set:
  "j < length xs \<Longrightarrow> typed_set xs i v ! j = (if i = int j then v else xs ! j)"
  by (auto simp: typed_set_def nth_list_update)

lemma length_set16 [simp]: "length (set16 xs i v) = length xs"
  by (simp add: set16_def)

lemma nth_set16:
  "j < length xs \<Longrightarrow> set16 xs i v ! j = (if i = int j then word_of_int v else xs ! j)"
  by (simp add: set16_def nth_typed_set)

lemma length_indexLoop [simp]: "length (indexLoop i n a) = length a"
  by (induction i n a rule: indexLoop.induct) (subst indexLoop.simps, simp add: Let_def)

lemma nth_indexLoop:
  "0 \<le> i \<Longrightarrow> j < length a \<Longrightarrow>
   indexLoop i n a ! j =
     (if i \<le> int (j div 6) \<and> int (j div 6) < n then word_of_int (indexValue j) else a ! j)"
proof (induction i n a rule: indexLoop.induct)
  case (1 i n a)
  show ?case
  proof (cases "i < n")
    case False
    then show ?thesis by (subst indexLoop.simps) auto
  next
    case True
    define a5 where "a5 = set16 (set16 (set16 (set16 (set16 (set16 a (i * 6 + 0) (i * 4 + 0))
      (i * 6 + 1) (i * 4 + 1)) (i * 6 + 2) (i * 4 + 2)) (i * 6 + 3) (i * 4 + 2)) (i * 6 + 4) (i * 4 + 3))
      (i * 6 + 5) (i * 4 + 0)"
    have step: "indexLoop i n a = indexLoop (i + 1) n a5"
      using True by (subst indexLoop.simps) (simp add: Let_def a5_def)
    have len: "length a5 = length a" by (simp add: a5_def)
    have IH: "indexLoop (i + 1) n a5 ! j =
       (if i + 1 \<le> int (j div 6) \<and> int (j div 6) < n then word_of_int (indexValue j) else a5 ! j)"
      using "1.IH"[OF True refl refl refl refl refl refl refl] "1.prems" len  by (simp add: a5_def)
    have a5j: "a5 ! j = (if int (j div 6) = i then word_of_int (indexValue j) else a ! j)"
    proof (cases "int (j div 6) = i")
      case False
      then have "i * 6 \<noteq> int j" "i * 6 + 1 \<noteq> int j" "i * 6 + 2 \<noteq> int j"
        "i * 6 + 3 \<noteq> int j" "i * 6 + 4 \<noteq> int j" "i * 6 + 5 \<noteq> int j"
        by auto
      then show ?thesis using False "1.prems" by (simp add: a5_def nth_set16)
    next
      case T: True
      then obtain r where r: "r < 6" "j = nat i * 6 + r" using "1.prems"
        by (metis add.commute mod_less_divisor mult.commute mult_div_mod_eq nat_int zero_less_numeral)
      have "r = 0 \<or> r = 1 \<or> r = 2 \<or> r = 3 \<or> r = 4 \<or> r = 5" using r by arith
      then show ?thesis using T r "1.prems"
        by (auto simp: a5_def nth_set16 indexValue_def)
    qed
    show ?thesis unfolding step IH a5j using True by auto
  qed
qed


lemma length_indexBuffer2_array: "length indexBuffer2_array = 384"
  by (simp add: indexBuffer2_array_def StructArrayLayout3ui6_resized_def maxQuadsPerDrawCall_def)

lemma indexBuffer2_array_nth:
  assumes "j < 384"
  shows "indexBuffer2_array ! j = word_of_int (indexValue j)"
proof -
  have "int (j div 6) < 128" using assms by simp
  then show ?thesis
    using assms
    by (simp add: indexBuffer2_array_def StructArrayLayout3ui6_resized_def
        maxQuadsPerDrawCall_def nth_indexLoop)
qed

lemma unat_word16_of_int:
  assumes "m < 65536"
  shows "unat (word_of_int (int m) :: 16 word) = m"
proof -
  have "unat (of_nat m :: 16 word) = m mod 2 ^ 16" by (simp add: unat_of_nat)
  then show ?thesis using assms by simp
qed

lemma unat_indexValue:
  assumes "j < 384"
  shows "unat (word_of_int (indexValue j) :: 16 word) = 4 * (j div 6) + [0, 1, 2, 2, 3, 0] ! (j mod 6)"
proof -
  have r: "j mod 6 < 6" by simp
  have b: "[0, 1, 2, 2, 3, 0::nat] ! (j mod 6) \<le> 3"
    using r by (auto simp: nth_Cons' )
  have e: "indexValue j = int (4 * (j div 6) + [0, 1, 2, 2, 3, 0] ! (j mod 6))"
    using r by (auto simp: indexValue_def nth_Cons')
  have "j div 6 < 64" using assms by simp
  then have lt: "4 * (j div 6) + [0, 1, 2, 2, 3, 0] ! (j mod 6) < 65536" using b by simp
  show ?thesis unfolding e by (rule unat_word16_of_int[OF lt])
qed

lemma indexBuffer2_array_unat:
  assumes "i < 64" "k < 6"
  shows "unat (indexBuffer2_array ! (6 * i + k)) = 4 * i + [0, 1, 2, 2, 3, 0] ! k"
proof -
  have j: "6 * i + k < 384" using assms by simp
  have d: "(6 * i + k) div 6 = i" "(6 * i + k) mod 6 = k" using assms by simp_all
  show ?thesis
    unfolding indexBuffer2_array_nth[OF j] unat_indexValue[OF j] d ..
qed

lemma length_setFloat32 [simp]: "length (setFloat32 xs i v) = length xs"
  by (simp add: setFloat32_def)

lemma nth_setFloat32:
  "j < length xs \<Longrightarrow>
   setFloat32 xs i v ! j = (if i = int j then (case v of None \<Rightarrow> NaN | Some x \<Rightarrow> x) else xs ! j)"
  by (simp add: setFloat32_def nth_typed_set)

lemma snd_copyQuad [simp]: "snd (copyQuad arr q st) = snd st + 1"
  by (simp add: copyQuad_def Let_def split: prod.splits)

lemma length_copyQuad [simp]: "length (fst (copyQuad arr q st)) = length (fst st)"
  by (simp add: copyQuad_def Let_def split: prod.splits)

lemma nth_copyQuad:
  assumes "0 \<le> q" "i < length (fst st)"
  shows "fst (copyQuad arr q st) ! i =
     (if 4 * snd st \<le> int i \<and> int i < 4 * snd st + 4
      then stored arr (nat (4 * q + (int i - 4 * snd st))) else fst st ! i)"
proof (cases st)
  case (Pair qp b)
  define k where "k = int i - 4 * b"
  have i: "int i = b * 4 + k" by (simp add: k_def)
  have rd: "(case typed_get (float32 arr) (q * 4 + k') of None \<Rightarrow> NaN | Some x \<Rightarrow> x)
      = stored arr (nat (4 * q + k'))" if "0 \<le> k'" for k'
    using assms(1) that by (simp add: stored_def algebra_simps)
  consider "k = 0" | "k = 1" | "k = 2" | "k = 3" | "k < 0 \<or> 3 < k" by arith
  then show ?thesis
  proof cases
    case 1 with assms Pair i rd[of 0] show ?thesis
      by (simp add: copyQuad_def Let_def nth_setFloat32)
  next
    case 2 with assms Pair i rd[of 1] show ?thesis
      by (simp add: copyQuad_def Let_def nth_setFloat32)
  next
    case 3 with assms Pair i rd[of 2] show ?thesis
      by (simp add: copyQuad_def Let_def nth_setFloat32)
  next
    case 4 with assms Pair i rd[of 3] show ?thesis
      by (simp add: copyQuad_def Let_def nth_setFloat32)
  next
    case 5 with assms Pair i show ?thesis
      by (auto simp: copyQuad_def Let_def nth_setFloat32)
  qed
qed

lemma snd_copyLoop: "snd (copyLoop arr q e st) = snd st + (if q \<le> e then e - q else 0)"
  by (induction arr q e st rule: copyLoop.induct) (subst copyLoop.simps, simp)

lemma length_copyLoop [simp]: "length (fst (copyLoop arr q e st)) = length (fst st)"
  by (induction arr q e st rule: copyLoop.induct) (subst copyLoop.simps, simp)

lemma nth_copyLoop:
  "0 \<le> q \<Longrightarrow> q \<le> e \<Longrightarrow> i < length (fst st) \<Longrightarrow>
   fst (copyLoop arr q e st) ! i =
     (if 4 * snd st \<le> int i \<and> int i < 4 * (snd st + (e - q))
      then stored arr (nat (4 * q + (int i - 4 * snd st))) else fst st ! i)"
proof (induction arr q e st rule: copyLoop.induct)
  case (1 arr q e st)
  show ?case
  proof (cases "q < e")
    case False
    with "1.prems" show ?thesis by (subst copyLoop.simps) auto
  next
    case True
    have step: "copyLoop arr q e st = copyLoop arr (q + 1) e (copyQuad arr q st)"
      using True by (subst copyLoop.simps) simp
    have IH: "fst (copyLoop arr (q + 1) e (copyQuad arr q st)) ! i =
       (if 4 * snd (copyQuad arr q st) \<le> int i \<and>
           int i < 4 * (snd (copyQuad arr q st) + (e - (q + 1)))
        then stored arr (nat (4 * (q + 1) + (int i - 4 * snd (copyQuad arr q st))))
        else fst (copyQuad arr q st) ! i)"
      using "1.IH"[OF True] "1.prems" True by simp
    show ?thesis
      unfolding step IH using "1.prems" True
      by (auto simp: nth_copyQuad algebra_simps)
  qed
qed


lemma nth_circleFloats:
  "k < 4 * b - 4 * a \<Longrightarrow> circleFloats arr a b ! k = stored arr (4 * a + k)"
  by (simp add: circleFloats_def)

lemma length_circleFloats [simp]: "length (circleFloats arr a b) = 4 * b - 4 * a"
  by (simp add: circleFloats_def)

lemma copyLoop_from_zero:
  assumes "q \<le> e" "4 * (e - q) \<le> length qp"
  shows "copyLoop arr (int q) (int e) (qp, 0) =
           (circleFloats arr q e @ drop (4 * (e - q)) qp, int e - int q)"
proof -
  let ?r = "copyLoop arr (int q) (int e) (qp, 0)"
  have s: "snd ?r = int e - int q" using assms by (simp add: snd_copyLoop)
  have l: "length (fst ?r) = length qp" by simp
  have f: "fst ?r = circleFloats arr q e @ drop (4 * (e - q)) qp"
  proof (rule nth_equalityI)
    show "length (fst ?r) = length (circleFloats arr q e @ drop (4 * (e - q)) qp)"
      using assms by (simp add: l)
  next
    fix i assume "i < length (fst ?r)"
    then have i: "i < length qp" by simp
    have n: "fst ?r ! i =
       (if int i < 4 * (int e - int q) then stored arr (nat (4 * int q + int i)) else qp ! i)"
      using assms i by (simp add: nth_copyLoop)
    show "fst ?r ! i = (circleFloats arr q e @ drop (4 * (e - q)) qp) ! i"
    proof (cases "i < 4 * e - 4 * q")
      case True
      then have c: "int i < 4 * (int e - int q)" using assms by arith
      have "nat (4 * int q + int i) = 4 * q + i" by arith
      then show ?thesis
        unfolding n using True c by (simp add: nth_append nth_circleFloats)
    next
      case False
      then have c: "\<not> int i < 4 * (int e - int q)" using assms by arith
      have "4 * (e - q) + (i - (4 * e - 4 * q)) = i" using assms False by arith
      then show ?thesis
        unfolding n using False c i by (simp add: nth_append)
    qed
  qed
  show ?thesis using s f by (simp add: prod_eq_iff)
qed

lemma length_fullBatch [simp]: "length (fullBatch arr i) = 256"
  by (simp add: fullBatch_def)

lemma length_scratchAt [simp]: "length qp = 256 \<Longrightarrow> length (scratchAt arr qp i) = 256"
  by (simp add: scratchAt_def)

lemma flush_eq:
  "flush bT bInv vb ib s = circleDrawCall bT bInv vb ib (quadProperties s) (batchQuadIdx s)"
  by (simp add: flush_def circleDrawCall_def)

lemma packStart_headState: "packStart qp = headState arr bT bInv vb ib qp 0"
  by (simp add: packStart_def headState_def scratchAt_def fullDraws_def)

lemma copyLoop_from_zero':
  assumes "qi = int q" "ei = int e" "q \<le> e" "4 * (e - q) \<le> length qp"
  shows "copyLoop arr qi ei (qp, 0) = (circleFloats arr q e @ drop (4 * (e - q)) qp, int e - int q)"
  using copyLoop_from_zero[OF assms(3,4)] assms(1,2) by simp

lemma packCopy_full:
  assumes "64 * (i + 1) \<le> arr_length arr" "length qp = 256"
  shows "packCopy arr (headState arr bT bInv vb ib qp i) =
     \<lparr>quadProperties = fullBatch arr i, batchQuadIdx = 64, quadOffset = 64 * int (i + 1),
      draws = fullDraws arr bT bInv vb ib i\<rparr>"
proof -
  let ?s = "headState arr bT bInv vb ib qp i"
  have bs: "batchSize arr ?s = 64"
    using assms by (simp add: batchSize_def headState_def maxQuadsPerDrawCall_def Let_def)
  have cl: "copyLoop arr (64 * int i) (64 * int i + 64) (scratchAt arr qp i, 0) =
      (fullBatch arr i, 64)"
    using copyLoop_from_zero'[of "64 * int i" "64 * i" "64 * int i + 64" "64 * i + 64"
        "scratchAt arr qp i" arr] assms
    by (simp add: fullBatch_def)
  show ?thesis
    unfolding packCopy_def bs by (simp add: headState_def cl)
qed

lemma packIter_full:
  assumes "64 * (i + 1) \<le> arr_length arr" "length qp = 256"
  shows "packIter arr bT bInv vb ib (headState arr bT bInv vb ib qp i) =
     headState arr bT bInv vb ib qp (i + 1)"
  unfolding packIter_def packCopy_full[OF assms]
  by (simp add: Let_def maxQuadsPerDrawCall_def headState_def scratchAt_def fullDraws_def
      flush_eq)

lemma packCopy_part:
  assumes "64 * i < arr_length arr" "arr_length arr < 64 * (i + 1)" "length qp = 256"
  shows "packCopy arr (headState arr bT bInv vb ib qp i) = endState arr bT bInv vb ib qp"
proof -
  let ?s = "headState arr bT bInv vb ib qp i"
  let ?n = "arr_length arr"
  have k: "?n div 64 = i" using assms by simp
  have r: "?n mod 64 = ?n - 64 * i" "?n mod 64 \<noteq> 0"
    using assms k by (auto simp: modulo_nat_def)
  have bs: "batchSize arr ?s = int ?n - 64 * int i"
    using assms by (simp add: batchSize_def headState_def maxQuadsPerDrawCall_def Let_def)
  have cl: "copyLoop arr (64 * int i) (int ?n) (scratchAt arr qp i, 0) =
      (circleFloats arr (64 * i) ?n @ drop (4 * (?n - 64 * i)) (scratchAt arr qp i),
       int ?n - 64 * int i)"
    using copyLoop_from_zero'[of "64 * int i" "64 * i" "int ?n" "?n"
        "scratchAt arr qp i" arr] assms
    by simp
  show ?thesis
    unfolding packCopy_def bs
    using assms by (simp add: headState_def cl endState_def scratchEnd_def Let_def k r of_nat_diff)
qed

lemma packIter_part:
  assumes "64 * i < arr_length arr" "arr_length arr < 64 * (i + 1)" "length qp = 256"
  shows "packIter arr bT bInv vb ib (headState arr bT bInv vb ib qp i) =
     endState arr bT bInv vb ib qp"
proof -
  have "int (arr_length arr mod 64) \<noteq> 64"
    by (metis mod_less_divisor nat_neq_iff of_nat_eq_iff of_nat_numeral zero_less_numeral)
  then show ?thesis
    unfolding packIter_def packCopy_part[OF assms]
    by (simp add: Let_def maxQuadsPerDrawCall_def endState_def)
qed

lemma headState_exact:
  assumes "arr_length arr = 64 * i"
  shows "headState arr bT bInv vb ib qp i = endState arr bT bInv vb ib qp"
  using assms by (simp add: headState_def endState_def scratchEnd_def Let_def)

lemma packLoop_headState:
  assumes "length qp = 256"
  shows "64 * i \<le> arr_length arr \<Longrightarrow>
    packLoop arr bT bInv vb ib (headState arr bT bInv vb ib qp i) =
      Some (endState arr bT bInv vb ib qp)"
proof (induction "arr_length arr div 64 - i" arbitrary: i)
  case 0
  then have k: "arr_length arr div 64 = i" by simp
  show ?case
  proof (cases "arr_length arr = 64 * i")
    case True
    then have "\<not> quadOffset (headState arr bT bInv vb ib qp i) < int (arr_length arr)"
      by (simp add: headState_def)
    then show ?thesis
      by (subst packLoop.simps) (simp add: headState_exact[OF True])
  next
    case False
    then have a: "64 * i < arr_length arr" "arr_length arr < 64 * (i + 1)"
      using 0 k by auto
    have e: "\<not> quadOffset (endState arr bT bInv vb ib qp) < int (arr_length arr)"
      by (simp add: endState_def)
    have h: "quadOffset (headState arr bT bInv vb ib qp i) < int (arr_length arr)"
      using a by (simp add: headState_def)
    show ?thesis
      using h e
      by (subst packLoop.simps, simp add: packIter_part[OF a assms])
         (subst packLoop.simps, simp)
  qed
next
  case (Suc d)
  then have a: "64 * (i + 1) \<le> arr_length arr" by simp
  have h: "quadOffset (headState arr bT bInv vb ib qp i) < int (arr_length arr)"
    using a by (simp add: headState_def)
  have d: "d = arr_length arr div 64 - (i + 1)" using Suc by simp
  show ?case
    using h Suc.hyps(1)[OF d a]
    by (subst packLoop.simps) (simp add: packIter_full[OF a assms])
qed

lemma packLoop_packStart:
  assumes "length qp = 256"
  shows "packLoop arr bT bInv vb ib (packStart qp) = Some (endState arr bT bInv vb ib qp)"
  using packLoop_headState[OF assms, of 0 arr bT bInv vb ib]
  by (simp add: packStart_headState[of qp arr bT bInv vb ib])

lemma batchQuadIdx_packCopy:
  "batchQuadIdx (packCopy arr s) =
     batchQuadIdx s + (if 0 \<le> batchSize arr s then batchSize arr s else 0)"
  by (simp add: packCopy_def case_prod_beta snd_copyLoop)

lemma quadOffset_packCopy: "quadOffset (packCopy arr s) = quadOffset s + batchSize arr s"
  by (simp add: packCopy_def case_prod_beta)

lemma draws_packCopy: "draws (packCopy arr s) = draws s"
  by (simp add: packCopy_def case_prod_beta)

lemma length_packCopy: "length (quadProperties (packCopy arr s)) = length (quadProperties s)"
  by (simp add: packCopy_def case_prod_beta)

lemma quadOffset_packIter:
  "quadOffset (packIter arr bT bInv vb ib s) = quadOffset s + batchSize arr s"
  by (simp add: packIter_def Let_def quadOffset_packCopy)

lemma batchSize_head:
  assumes "batchQuadIdx s = 0" "quadOffset s < int (arr_length arr)"
  shows "batchSize arr s = min (int (arr_length arr) - quadOffset s) 64"
  using assms by (simp add: batchSize_def Let_def maxQuadsPerDrawCall_def)

lemma batchQuadIdx_packIter_head:
  assumes "batchQuadIdx s = 0" "quadOffset s < int (arr_length arr)"
  shows "batchQuadIdx (packIter arr bT bInv vb ib s) =
     (if quadOffset s + 64 \<le> int (arr_length arr) then 0 else int (arr_length arr) - quadOffset s)"
  using assms
  by (auto simp: packIter_def Let_def batchQuadIdx_packCopy batchSize_head maxQuadsPerDrawCall_def
      min_def)

lemma packLoop_done:
  "\<not> quadOffset s < int (arr_length arr) \<Longrightarrow> packLoop arr bT bInv vb ib s = Some s"
  by (subst packLoop.simps) simp

lemma packLoop_step:
  "quadOffset s < int (arr_length arr) \<Longrightarrow>
   packLoop arr bT bInv vb ib s = packLoop arr bT bInv vb ib (packIter arr bT bInv vb ib s)"
  by (subst packLoop.simps) simp

lemma packHeads_done:
  "\<not> quadOffset s < int (arr_length arr) \<Longrightarrow> packHeads arr bT bInv vb ib s = Some []"
  by (subst packHeads.simps) simp

lemma packHeads_step:
  "quadOffset s < int (arr_length arr) \<Longrightarrow>
   packHeads arr bT bInv vb ib s =
     Option.bind (packHeads arr bT bInv vb ib (packIter arr bT bInv vb ib s)) (\<lambda>hs. Some (s # hs))"
  by (subst packHeads.simps) simp

lemma packLoop_returns:
  "batchQuadIdx s = 0 \<Longrightarrow> \<exists>r. packLoop arr bT bInv vb ib s = Some r"
proof (induction "nat (int (arr_length arr) - quadOffset s)" arbitrary: s rule: less_induct)
  case less
  show ?case
  proof (cases "quadOffset s < int (arr_length arr)")
    case False
    then show ?thesis by (simp add: packLoop_done)
  next
    case True
    let ?s1 = "packIter arr bT bInv vb ib s"
    have q1: "quadOffset ?s1 = quadOffset s + min (int (arr_length arr) - quadOffset s) 64"
      using less.prems True by (simp add: quadOffset_packIter batchSize_head)
    show ?thesis
    proof (cases "quadOffset s + 64 \<le> int (arr_length arr)")
      case full: True
      have b1: "batchQuadIdx ?s1 = 0"
        using less.prems True full by (simp add: batchQuadIdx_packIter_head)
      have "nat (int (arr_length arr) - quadOffset ?s1) < nat (int (arr_length arr) - quadOffset s)"
        using q1 True by simp
      from less.hyps[OF this b1] show ?thesis
        using True by (simp add: packLoop_step)
    next
      case part: False
      have "quadOffset ?s1 = int (arr_length arr)" using q1 part by simp
      then have "packLoop arr bT bInv vb ib ?s1 = Some ?s1" by (simp add: packLoop_done)
      then show ?thesis using True by (simp add: packLoop_step)
    qed
  qed
qed

lemma packHeads_returns:
  "batchQuadIdx s = 0 \<Longrightarrow>
   \<exists>hs. packHeads arr bT bInv vb ib s = Some hs \<and>
        (\<forall>h\<in>set hs. batchQuadIdx h = 0 \<and> quadOffset h < int (arr_length arr))"
proof (induction "nat (int (arr_length arr) - quadOffset s)" arbitrary: s rule: less_induct)
  case less
  show ?case
  proof (cases "quadOffset s < int (arr_length arr)")
    case False
    then show ?thesis by (simp add: packHeads_done)
  next
    case True
    let ?s1 = "packIter arr bT bInv vb ib s"
    have q1: "quadOffset ?s1 = quadOffset s + min (int (arr_length arr) - quadOffset s) 64"
      using less.prems True by (simp add: quadOffset_packIter batchSize_head)
    show ?thesis
    proof (cases "quadOffset s + 64 \<le> int (arr_length arr)")
      case full: True
      have b1: "batchQuadIdx ?s1 = 0"
        using less.prems True full by (simp add: batchQuadIdx_packIter_head)
      have "nat (int (arr_length arr) - quadOffset ?s1) < nat (int (arr_length arr) - quadOffset s)"
        using q1 True by simp
      from less.hyps[OF this b1] obtain hs where
        hs: "packHeads arr bT bInv vb ib ?s1 = Some hs"
          "\<forall>h\<in>set hs. batchQuadIdx h = 0 \<and> quadOffset h < int (arr_length arr)"
        by blast
      show ?thesis
        using True hs less.prems by (simp add: packHeads_step)
    next
      case part: False
      have "quadOffset ?s1 = int (arr_length arr)" using q1 part by simp
      then have "packHeads arr bT bInv vb ib ?s1 = Some []" by (simp add: packHeads_done)
      then show ?thesis using True less.prems by (simp add: packHeads_step)
    qed
  qed
qed

lemma ceil64: "((n::nat) + 63) div 64 = n div 64 + (if n mod 64 \<noteq> 0 then 1 else 0)"
proof -
  define q r where "q = n div 64" and "r = n mod 64"
  have n: "n = 64 * q + r" and r: "r < 64" by (simp_all add: q_def r_def)
  have "(64 * q + (r + 63)) div 64 = q + (r + 63) div 64"
    by simp
  moreover have "(r + 63) div 64 = (if r \<noteq> 0 then 1 else 0)"
    using r by (auto simp: div_nat_eqI)
  ultimately have "(n + 63) div 64 = q + (if r \<noteq> 0 then 1 else 0)"
    unfolding n by (simp add: add.assoc)
  then show ?thesis by (simp add: q_def r_def)
qed

lemma packHeads_headState:
  assumes "length qp = 256"
  shows "64 * i \<le> arr_length arr \<Longrightarrow>
    packHeads arr bT bInv vb ib (headState arr bT bInv vb ib qp i) =
      Some (map (headState arr bT bInv vb ib qp) [i ..< (arr_length arr + 63) div 64])"
proof (induction "arr_length arr div 64 - i" arbitrary: i)
  case 0
  then have k: "arr_length arr div 64 = i" by simp
  show ?case
  proof (cases "arr_length arr = 64 * i")
    case True
    then have "\<not> quadOffset (headState arr bT bInv vb ib qp i) < int (arr_length arr)"
      by (simp add: headState_def)
    moreover have "(arr_length arr + 63) div 64 = i" using True by simp
    ultimately show ?thesis by (simp add: packHeads_done)
  next
    case False
    then have a: "64 * i < arr_length arr" "arr_length arr < 64 * (i + 1)"
      using 0 k by auto
    have e: "\<not> quadOffset (endState arr bT bInv vb ib qp) < int (arr_length arr)"
      by (simp add: endState_def)
    have h: "quadOffset (headState arr bT bInv vb ib qp i) < int (arr_length arr)"
      using a by (simp add: headState_def)
    have "(arr_length arr + 63) div 64 = i + 1" using a by simp
    then have u: "[i ..< (arr_length arr + 63) div 64] = [i]" by simp
    show ?thesis
      unfolding u using h e
      by (simp add: packHeads_step packIter_part[OF a assms] packHeads_done)
  qed
next
  case (Suc d)
  then have a: "64 * (i + 1) \<le> arr_length arr" by simp
  have h: "quadOffset (headState arr bT bInv vb ib qp i) < int (arr_length arr)"
    using a by (simp add: headState_def)
  have d: "d = arr_length arr div 64 - (i + 1)" using Suc by simp
  have "i < (arr_length arr + 63) div 64" using a by simp
  then have u: "[i ..< (arr_length arr + 63) div 64] = i # [i + 1 ..< (arr_length arr + 63) div 64]"
    by (simp add: upt_conv_Cons)
  show ?case
    unfolding u using h Suc.hyps(1)[OF d a]
    by (simp add: packHeads_step packIter_full[OF a assms])
qed

lemma packHeads_packStart:
  assumes "length qp = 256"
  shows "packHeads arr bT bInv vb ib (packStart qp) =
     Some (map (headState arr bT bInv vb ib qp) [0 ..< (arr_length arr + 63) div 64])"
  using packHeads_headState[OF assms, of 0 arr bT bInv vb ib]
  by (simp add: packStart_headState[of qp arr bT bInv vb ib])

lemma drawCircles_eq:
  assumes "length qp = 256"
  shows "drawCircles mat4 painter coord tile bucket translate anchor vb ib qp =
     Some (tileDraws (collisionCircleArrayTemp bucket)
             (tileMatrix painter coord tile translate anchor) (reproject mat4 painter bucket)
             vb ib qp,
           scratchEnd (collisionCircleArrayTemp bucket) qp)"
  unfolding drawCircles_def Let_def tileMatrix_def[symmetric]
  by (simp add: packLoop_packStart[OF assms] endState_def flush_eq tileDraws_def)

lemma circleTile_eq:
  assumes "sourceCache coord = Some tile" "getBucket tile = Some bucket" "length qp = 256"
  shows "circleTile mat4 painter sourceCache coord translate anchor vb ib qp =
     Some (Inr (tileDraws (collisionCircleArrayTemp bucket)
             (tileMatrix painter coord tile translate anchor) (reproject mat4 painter bucket)
             vb ib qp,
           scratchEnd (collisionCircleArrayTemp bucket) qp))"
proof (cases "arr_length (collisionCircleArrayTemp bucket) = 0")
  case True
  then show ?thesis
    using assms
    by (simp add: circleTile_def tileDraws_def fullDraws_def scratchEnd_def scratchAt_def)
next
  case False
  then show ?thesis
    using assms by (simp add: circleTile_def drawCircles_eq)
qed

lemma circleFloats_append:
  "a \<le> b \<Longrightarrow> b \<le> c \<Longrightarrow> circleFloats arr a b @ circleFloats arr b c = circleFloats arr a c"
proof -
  assume "a \<le> b" "b \<le> c"
  then have "[4 * a ..< 4 * c] = [4 * a ..< 4 * b] @ [4 * b ..< 4 * c]"
    by (metis le_iff_add mult_le_mono2 order_refl upt_add_eq_append)
  then show ?thesis by (simp add: circleFloats_def)
qed

lemma concat_fullBatch:
  "concat (map (fullBatch arr) [0 ..< k]) = circleFloats arr 0 (64 * k)"
proof (induction k)
  case 0
  show ?case by (simp add: circleFloats_def)
next
  case (Suc k)
  have "circleFloats arr 0 (64 * k) @ fullBatch arr k = circleFloats arr 0 (64 * k + 64)"
    unfolding fullBatch_def by (rule circleFloats_append) simp_all
  moreover have "64 * Suc k = 64 * k + 64" by simp
  ultimately show ?case using Suc by (simp add: add.commute)
qed

lemma drawnQuads_circleDrawCall:
  "drawnQuads (circleDrawCall bT bInv vb ib Q (int b)) = take (4 * b) Q"
  by (simp add: drawnQuads_def circleDrawCall_def simpleSegment_def)

lemma drawnQuads_full:
  "drawnQuads (circleDrawCall bT bInv vb ib (fullBatch arr i) 64) = fullBatch arr i"
  using drawnQuads_circleDrawCall[of bT bInv vb ib "fullBatch arr i" 64] by simp

lemma take_scratchEnd:
  assumes "length qp = 256"
  shows "take (4 * (arr_length arr mod 64)) (scratchEnd arr qp) =
     circleFloats arr (64 * (arr_length arr div 64)) (arr_length arr)"
proof (cases "arr_length arr mod 64 = 0")
  case True
  then have "arr_length arr = 64 * (arr_length arr div 64)"
    using div_mult_mod_eq[of "arr_length arr" 64] by simp
  then show ?thesis using True by (simp add: circleFloats_def)
next
  case False
  have "4 * arr_length arr - 256 * (arr_length arr div 64) = 4 * (arr_length arr mod 64)"
    by (simp add: modulo_nat_def)
  then show ?thesis using False by (simp add: scratchEnd_def Let_def)
qed

lemma concat_drawnQuads_tileDraws:
  assumes "length qp = 256"
  shows "concat (map drawnQuads (tileDraws arr bT bInv vb ib qp)) = circleFloats arr 0 (arr_length arr)"
proof -
  have f: "map drawnQuads (fullDraws arr bT bInv vb ib k) = map (fullBatch arr) [0 ..< k]" for k
    by (simp add: fullDraws_def drawnQuads_full)
  have le: "64 * (arr_length arr div 64) \<le> arr_length arr" by simp
  have l: "concat (map drawnQuads (tileDraws arr bT bInv vb ib qp)) =
      circleFloats arr 0 (64 * (arr_length arr div 64)) @
      circleFloats arr (64 * (arr_length arr div 64)) (arr_length arr)"
  proof (cases "arr_length arr mod 64 = 0")
    case True
    then have "arr_length arr = 64 * (arr_length arr div 64)"
    using div_mult_mod_eq[of "arr_length arr" 64] by simp
    then have "circleFloats arr (64 * (arr_length arr div 64)) (arr_length arr) = []"
      by (simp add: circleFloats_def)
    then show ?thesis using True by (simp add: tileDraws_def f concat_fullBatch)
  next
    case False
    then show ?thesis
      by (simp add: tileDraws_def f concat_fullBatch drawnQuads_circleDrawCall
          take_scratchEnd[OF assms])
  qed
  show ?thesis unfolding l by (rule circleFloats_append[OF _ le]) simp
qed

lemma circleFloats_wf:
  assumes "4 * arr_length arr \<le> length (float32 arr)"
  shows "circleFloats arr 0 (arr_length arr) = take (4 * arr_length arr) (float32 arr)"
proof (rule nth_equalityI)
  show "length (circleFloats arr 0 (arr_length arr)) = length (take (4 * arr_length arr) (float32 arr))"
    using assms by simp
next
  fix i assume "i < length (circleFloats arr 0 (arr_length arr))"
  then have i: "i < 4 * arr_length arr" by simp
  then show "circleFloats arr 0 (arr_length arr) ! i = take (4 * arr_length arr) (float32 arr) ! i"
    using assms by (simp add: circleFloats_def stored_def typed_get_def)
qed

lemma length_tileDraws:
  "length (tileDraws arr bT bInv vb ib qp) = (arr_length arr + 63) div 64"
proof -
  show ?thesis using ceil64[of "arr_length arr"] by (simp add: tileDraws_def fullDraws_def)
qed

lemma segments_fullDraws:
  "map segments (fullDraws arr bT bInv vb ib k) = replicate k (simpleSegment 0 0 256 128)"
  by (induction k) (simp_all add: fullDraws_def circleDrawCall_def replicate_append_same)

lemma segments_tileDraws:
  "map segments (tileDraws arr bT bInv vb ib qp) =
     map (\<lambda>b. simpleSegment 0 0 (b * 4) (b * 2)) (batchSizes (arr_length arr))"
  by (simp add: tileDraws_def segments_fullDraws batchSizes_def circleDrawCall_def)

lemma snd_copyStates:
  "map snd (copyStates arr q e st) = [snd st + 1 .. snd st + (e - q)]"
proof (induction arr q e st rule: copyStates.induct)
  case (1 arr q e st)
  show ?case
  proof (cases "q < e")
    case False
    then show ?thesis by (subst copyStates.simps) simp
  next
    case True
    have "[snd st + 1 .. snd st + (e - q)] =
        (snd st + 1) # [snd st + 1 + 1 .. snd st + (e - q)]"
      using True by (subst upto_rec1) simp_all
    then show ?thesis
      using True "1.IH"[OF True]
      by (subst copyStates.simps) (simp add: algebra_simps)
  qed
qed

lemma draws_packIter:
  "draws (packIter arr bT bInv vb ib s) = draws s \<or>
   draws (packIter arr bT bInv vb ib s) = draws s @ [flush bT bInv vb ib (packCopy arr s)]"
  by (simp add: packIter_def Let_def draws_packCopy)

lemma length_packIter:
  "length (quadProperties (packIter arr bT bInv vb ib s)) = length (quadProperties s)"
  by (simp add: packIter_def Let_def length_packCopy)

lemma flush_matrices:
  "u_batchTransform (flush bT bInv vb ib s) = bT \<and> u_batchInvTransform (flush bT bInv vb ib s) = bInv"
  by (simp add: flush_def)

lemma packLoop_returns_inv:
  "batchQuadIdx s = 0 \<Longrightarrow>
   \<exists>r. packLoop arr bT bInv vb ib s = Some r \<and>
       (\<forall>d\<in>set (draws r). d \<in> set (draws s) \<or>
           (u_batchTransform d = bT \<and> u_batchInvTransform d = bInv))"
proof (induction "nat (int (arr_length arr) - quadOffset s)" arbitrary: s rule: less_induct)
  case less
  show ?case
  proof (cases "quadOffset s < int (arr_length arr)")
    case False
    then show ?thesis by (simp add: packLoop_done)
  next
    case True
    let ?s1 = "packIter arr bT bInv vb ib s"
    have q1: "quadOffset ?s1 = quadOffset s + min (int (arr_length arr) - quadOffset s) 64"
      using less.prems True by (simp add: quadOffset_packIter batchSize_head)
    have d1: "\<forall>d\<in>set (draws ?s1). d \<in> set (draws s) \<or>
           (u_batchTransform d = bT \<and> u_batchInvTransform d = bInv)"
      using draws_packIter[of arr bT bInv vb ib s] flush_matrices[of bT bInv vb ib "packCopy arr s"]
      by auto
    show ?thesis
    proof (cases "quadOffset s + 64 \<le> int (arr_length arr)")
      case full: True
      have b1: "batchQuadIdx ?s1 = 0"
        using less.prems True full by (simp add: batchQuadIdx_packIter_head)
      have "nat (int (arr_length arr) - quadOffset ?s1) < nat (int (arr_length arr) - quadOffset s)"
        using q1 True by simp
      from less.hyps[OF this b1] obtain r where
        r: "packLoop arr bT bInv vb ib ?s1 = Some r"
           "\<forall>d\<in>set (draws r). d \<in> set (draws ?s1) \<or>
              (u_batchTransform d = bT \<and> u_batchInvTransform d = bInv)"
        by blast
      have "\<forall>d\<in>set (draws r). d \<in> set (draws s) \<or>
              (u_batchTransform d = bT \<and> u_batchInvTransform d = bInv)"
        using r(2) d1 by blast
      then show ?thesis using True r(1) by (simp add: packLoop_step)
    next
      case part: False
      have "quadOffset ?s1 = int (arr_length arr)" using q1 part by simp
      then have "packLoop arr bT bInv vb ib ?s1 = Some ?s1" by (simp add: packLoop_done)
      then show ?thesis using True d1 by (simp add: packLoop_step)
    qed
  qed
qed

lemma upto_append:
  assumes "a \<le> b + 1" "b \<le> c"
  shows "[a .. b] @ [b + 1 .. c] = [a .. (c::int)]"
proof (cases "b = c")
  case True
  then show ?thesis by simp
next
  case False
  then have "b + 1 \<le> c" using assms by simp
  from upto_split1[OF assms(1) this] show ?thesis by simp
qed

lemma packHeads_returns_copied:
  "batchQuadIdx s = 0 \<Longrightarrow>
   \<exists>hs. packHeads arr bT bInv vb ib s = Some hs \<and>
        (\<forall>h\<in>set hs. batchQuadIdx h = 0 \<and> quadOffset h < int (arr_length arr)) \<and>
        concat (map (copiedCircles arr) hs) = [quadOffset s .. int (arr_length arr) - 1]"
proof (induction "nat (int (arr_length arr) - quadOffset s)" arbitrary: s rule: less_induct)
  case less
  show ?case
  proof (cases "quadOffset s < int (arr_length arr)")
    case False
    then show ?thesis by (simp add: packHeads_done)
  next
    case True
    let ?s1 = "packIter arr bT bInv vb ib s"
    have bs: "batchSize arr s = min (int (arr_length arr) - quadOffset s) 64"
      using less.prems True by (simp add: batchSize_head)
    have q1: "quadOffset ?s1 = quadOffset s + min (int (arr_length arr) - quadOffset s) 64"
      using bs by (simp add: quadOffset_packIter)
    show ?thesis
    proof (cases "quadOffset s + 64 \<le> int (arr_length arr)")
      case full: True
      have b1: "batchQuadIdx ?s1 = 0"
        using less.prems True full by (simp add: batchQuadIdx_packIter_head)
      have "nat (int (arr_length arr) - quadOffset ?s1) < nat (int (arr_length arr) - quadOffset s)"
        using q1 True by simp
      from less.hyps[OF this b1] obtain hs where
        hs: "packHeads arr bT bInv vb ib ?s1 = Some hs"
          "\<forall>h\<in>set hs. batchQuadIdx h = 0 \<and> quadOffset h < int (arr_length arr)"
          "concat (map (copiedCircles arr) hs) = [quadOffset ?s1 .. int (arr_length arr) - 1]"
        by blast
      have c: "copiedCircles arr s = [quadOffset s .. quadOffset s + 63]"
        using bs full by (simp add: copiedCircles_def add.commute)
      have q: "quadOffset ?s1 = quadOffset s + 63 + 1" using q1 full by simp
      have "copiedCircles arr s @ concat (map (copiedCircles arr) hs) =
          [quadOffset s .. int (arr_length arr) - 1]"
        unfolding c hs(3) q using full by (intro upto_append) simp_all
      then show ?thesis
        using True hs less.prems by (simp add: packHeads_step)
    next
      case part: False
      have "quadOffset ?s1 = int (arr_length arr)" using q1 part by simp
      then have h: "packHeads arr bT bInv vb ib ?s1 = Some []" by (simp add: packHeads_done)
      have c: "copiedCircles arr s = [quadOffset s .. int (arr_length arr) - 1]"
        using bs part by (simp add: copiedCircles_def)
      show ?thesis using True less.prems h c by (simp add: packHeads_step)
    qed
  qed
qed

lemma drawCircles_returns:
  "\<exists>ds qp'. drawCircles mat4 painter coord tile bucket translate anchor vb ib qp = Some (ds, qp') \<and>
      (\<forall>d\<in>set ds. u_batchTransform d = tileMatrix painter coord tile translate anchor \<and>
                   u_batchInvTransform d = reproject mat4 painter bucket)"
proof -
  let ?bT = "tileMatrix painter coord tile translate anchor"
  let ?bInv = "reproject mat4 painter bucket"
  have b: "batchQuadIdx (packStart qp :: 'a packState) = 0" by (simp add: packStart_def)
  obtain r where r: "packLoop (collisionCircleArrayTemp bucket) ?bT ?bInv vb ib (packStart qp) = Some r"
    "\<forall>d\<in>set (draws r). d \<in> set (draws (packStart qp :: 'a packState)) \<or>
        (u_batchTransform d = ?bT \<and> u_batchInvTransform d = ?bInv)"
    using packLoop_returns_inv[OF b, of "collisionCircleArrayTemp bucket" ?bT ?bInv vb ib] by blast
  have d: "\<forall>d\<in>set (draws r). u_batchTransform d = ?bT \<and> u_batchInvTransform d = ?bInv"
    using r(2) by (simp add: packStart_def)
  show ?thesis
    unfolding drawCircles_def Let_def tileMatrix_def[symmetric]
    using r(1) d by (simp add: flush_matrices)
qed

lemma circleTile_returns:
  assumes "sourceCache coord = Some tile"
  shows "\<exists>ds qp'. circleTile mat4 painter sourceCache coord translate anchor vb ib qp = Some (Inr (ds, qp')) \<and>
      (\<forall>bucket. getBucket tile = Some bucket \<longrightarrow>
         (\<forall>d\<in>set ds. u_batchTransform d = tileMatrix painter coord tile translate anchor \<and>
                     u_batchInvTransform d = reproject mat4 painter bucket))"
proof (cases "getBucket tile")
  case None
  then show ?thesis using assms by (simp add: circleTile_def)
next
  case (Some bucket)
  show ?thesis
  proof (cases "arr_length (collisionCircleArrayTemp bucket) = 0")
    case True
    then show ?thesis using assms Some by (simp add: circleTile_def)
  next
    case False
    obtain ds qp' where
      "drawCircles mat4 painter coord tile bucket translate anchor vb ib qp = Some (ds, qp')"
      "\<forall>d\<in>set ds. u_batchTransform d = tileMatrix painter coord tile translate anchor \<and>
                   u_batchInvTransform d = reproject mat4 painter bucket"
      using drawCircles_returns[of mat4 painter coord tile bucket translate anchor vb ib qp] by blast
    then show ?thesis using assms Some False by (simp add: circleTile_def)
  qed
qed

lemma reproject_eq:
  "reproject mat4 painter bucket =
     mat4_mul mat4 (mat4_mul mat4 (placementInvProjMatrix bucket) (glCoordMatrix painter))
       (placementViewportMatrix bucket)"
  by (simp add: reproject_def Let_def)

lemma head_round:
  assumes "batchQuadIdx s = 0" "quadOffset s < int (arr_length arr)"
  shows "1 \<le> batchSize arr s \<and> batchSize arr s \<le> 64 \<and>
         quadOffset s < quadOffset (packIter arr bT bInv vb ib s) \<and>
         quadOffset (packIter arr bT bInv vb ib s) \<le> int (arr_length arr) \<and>
         0 \<le> batchQuadIdx (packIter arr bT bInv vb ib s) \<and>
         batchQuadIdx (packIter arr bT bInv vb ib s) \<le> 64"
  using assms
  by (auto simp: quadOffset_packIter batchSize_head batchQuadIdx_packIter_head)

lemma roundIdxs_head:
  assumes "batchQuadIdx s = 0" "quadOffset s < int (arr_length arr)"
  shows "roundIdxs arr bT bInv vb ib s =
     0 # [1 .. batchSize arr s] @ [batchQuadIdx (packIter arr bT bInv vb ib s)]"
  using assms by (simp add: roundIdxs_def snd_copyStates)

lemma roundIdxs_bounded:
  assumes "batchQuadIdx s = 0" "quadOffset s < int (arr_length arr)"
  shows "\<forall>v\<in>set (roundIdxs arr bT bInv vb ib s). 0 \<le> v \<and> v \<le> 64"
  using head_round[OF assms, of bT bInv vb ib] unfolding roundIdxs_head[OF assms]
  by auto

lemma packCopy_nth:
  assumes "0 \<le> quadOffset s" "0 \<le> batchQuadIdx s" "length (quadProperties s) = 256"
    and "0 \<le> k" "k < batchSize arr s" "j < 4"
  shows "quadProperties (packCopy arr s) ! nat ((batchQuadIdx s + k) * 4 + int j) =
         stored arr (nat ((quadOffset s + k) * 4 + int j))"
proof -
  have bs: "batchSize arr s \<le> 64 - batchQuadIdx s"
    by (simp add: batchSize_def Let_def maxQuadsPerDrawCall_def)
  let ?i = "nat ((batchQuadIdx s + k) * 4 + int j)"
  have i: "int ?i = (batchQuadIdx s + k) * 4 + int j" using assms by simp
  have lt: "?i < length (fst (quadProperties s, batchQuadIdx s))"
    using assms bs by simp
  have q: "quadOffset s \<le> quadOffset s + batchSize arr s" using assms by simp
  have c: "4 * snd (quadProperties s, batchQuadIdx s) \<le> int ?i \<and>
      int ?i < 4 * (snd (quadProperties s, batchQuadIdx s) +
                    (quadOffset s + batchSize arr s - quadOffset s))"
    unfolding i using assms by simp
  have e: "4 * quadOffset s + (int ?i - 4 * snd (quadProperties s, batchQuadIdx s)) =
      (quadOffset s + k) * 4 + int j"
    unfolding i by simp
  have "fst (copyLoop arr (quadOffset s) (quadOffset s + batchSize arr s)
          (quadProperties s, batchQuadIdx s)) ! ?i =
        stored arr (nat (4 * quadOffset s +
          (int ?i - 4 * snd (quadProperties s, batchQuadIdx s))))"
    by (simp only: nth_copyLoop[OF assms(1) q lt] c if_True simp_thms)
  also have "\<dots> = stored arr (nat ((quadOffset s + k) * 4 + int j))"
    by (simp only: e)
  finally show ?thesis by (simp add: packCopy_def case_prod_beta)
qed

lemma stored_wf:
  "m < length (float32 arr) \<Longrightarrow> stored arr m = float32 arr ! m"
  by (simp add: stored_def typed_get_def)

lemma headState_in_heads:
  assumes "length qp = 256" "i < (arr_length arr + 63) div 64"
  shows "batchQuadIdx (headState arr bT bInv vb ib qp i) = 0"
    "0 \<le> quadOffset (headState arr bT bInv vb ib qp i)"
    "quadOffset (headState arr bT bInv vb ib qp i) < int (arr_length arr)"
    "length (quadProperties (headState arr bT bInv vb ib qp i)) = 256"
  using assms by (simp_all add: headState_def)

lemma length_scratchEnd: "length qp = 256 \<Longrightarrow> length (scratchEnd arr qp) = 256"
proof -
  assume l: "length qp = 256"
  have m: "arr_length arr mod 64 < 64" by simp
  have "4 * arr_length arr - 256 * (arr_length arr div 64) = 4 * (arr_length arr mod 64)"
    by (simp add: modulo_nat_def)
  then show ?thesis using l m by (simp add: scratchEnd_def Let_def)
qed

lemma length_batchSizes: "length (batchSizes n) = (n + 63) div 64"
  using ceil64[of n] by (simp add: batchSizes_def)

lemma nth_batchSizes:
  assumes "k < (n + 63) div 64"
  shows "batchSizes n ! k = (if k < n div 64 then 64 else int (n mod 64))"
    "0 < batchSizes n ! k" "batchSizes n ! k \<le> 64"
proof -
  have m: "n mod 64 < 64" by simp
  have c: "k < n div 64 \<or> (k = n div 64 \<and> n mod 64 \<noteq> 0)"
    using assms ceil64[of n] by (auto split: if_splits)
  show e: "batchSizes n ! k = (if k < n div 64 then 64 else int (n mod 64))"
    using c by (auto simp: batchSizes_def nth_append)
  show "0 < batchSizes n ! k" unfolding e using c by auto
  show "batchSizes n ! k \<le> 64" unfolding e using m by auto
qed

lemma nth_tileDraws:
  assumes "k < (arr_length arr + 63) div 64"
  shows "tileDraws arr bT bInv vb ib qp ! k =
     circleDrawCall bT bInv vb ib
       (if k < arr_length arr div 64 then fullBatch arr k else scratchEnd arr qp)
       (batchSizes (arr_length arr) ! k)"
proof -
  have c: "k < arr_length arr div 64 \<or> (k = arr_length arr div 64 \<and> arr_length arr mod 64 \<noteq> 0)"
    using assms ceil64[of "arr_length arr"] by (auto split: if_splits)
  show ?thesis
    unfolding nth_batchSizes(1)[OF assms]
    using c by (auto simp: tileDraws_def fullDraws_def nth_append)
qed

lemma take_batch:
  assumes "length qp = 256" "k < (arr_length arr + 63) div 64"
  shows "take (4 * nat (batchSizes (arr_length arr) ! k))
           (if k < arr_length arr div 64 then fullBatch arr k else scratchEnd arr qp) =
         circleFloats arr (64 * k) (64 * k + nat (batchSizes (arr_length arr) ! k))"
proof (cases "k < arr_length arr div 64")
  case True
  then show ?thesis
    unfolding nth_batchSizes(1)[OF assms(2)] by (simp add: fullBatch_def)
next
  case False
  then have k: "k = arr_length arr div 64"
    using assms(2) ceil64[of "arr_length arr"] by (auto split: if_splits)
  have e: "64 * (arr_length arr div 64) + arr_length arr mod 64 = arr_length arr" by simp
  show ?thesis
    unfolding nth_batchSizes(1)[OF assms(2)]
    using False take_scratchEnd[OF assms(1), of arr] by (simp add: k e)
qed

lemma length_vertexLoop [simp]: "length (vertexLoop i n a) = length a"
  by (induction i n a rule: vertexLoop.induct) (subst vertexLoop.simps, simp add: Let_def)

lemma length_vertexBuffer2_array: "length vertexBuffer2_array = 512"
  by (simp add: vertexBuffer2_array_def StructArrayLayout2i4_resized_def maxQuadsPerDrawCall_def)

lemma indexLoop_past_end:
  assumes "64 \<le> i" "length a = 384"
  shows "indexLoop i n a = a"
proof (rule nth_equalityI)
  show "length (indexLoop i n a) = length a" by simp
next
  fix j assume "j < length (indexLoop i n a)"
  then have j: "j < 384" using assms by simp
  then have "int (j div 6) < 64" by simp
  then have "\<not> i \<le> int (j div 6)" using assms by simp
  then show "indexLoop i n a ! j = a ! j"
    using assms j by (simp add: nth_indexLoop)
qed

lemma indexLoop_first_rounds:
  assumes "length a = 384"
  shows "indexLoop 0 128 a = indexLoop 0 64 a"
proof (rule nth_equalityI)
  show "length (indexLoop 0 128 a) = length (indexLoop 0 64 a)" by simp
next
  fix j assume "j < length (indexLoop 0 128 a)"
  then have j: "j < 384" using assms by simp
  then have "int (j div 6) < 64" by simp
  then show "indexLoop 0 128 a ! j = indexLoop 0 64 a ! j"
    using assms j by (simp add: nth_indexLoop)
qed

lemma boxTile_eq:
  assumes "sourceCache coord = Some tile" "getBucket tile = Some bucket"
    "(if isText then textCollisionBox bucket else iconCollisionBox bucket) = Some buffers"
  shows "boxTile painter sourceCache coord translate anchor isText =
     Inr [\<lparr>box_primitive = LINES,
           box_posMatrix = tileMatrix painter coord tile translate anchor,
           box_tile = tile, box_buffers = buffers\<rparr>]"
  using assms by (simp add: boxTile_def tileMatrix_def Let_def)

lemma boxTile_returns:
  "sourceCache coord = Some tile \<Longrightarrow>
   \<exists>ds. boxTile painter sourceCache coord translate anchor isText = Inr ds"
  by (simp add: boxTile_def Let_def split: option.splits)

lemma boxPath_returns:
  "\<forall>c\<in>set coords. sourceCache c \<noteq> None \<Longrightarrow>
   \<exists>ds. boxPath painter sourceCache coords translate anchor isText = Inr ds"
proof (induction coords)
  case Nil
  show ?case by simp
next
  case (Cons c cs)
  then obtain tile where "sourceCache c = Some tile" by auto
  then obtain ds where "boxTile painter sourceCache c translate anchor isText = Inr ds"
    using boxTile_returns by blast
  moreover obtain ds' where "boxPath painter sourceCache cs translate anchor isText = Inr ds'"
    using Cons by auto
  ultimately show ?case by simp
qed

lemma circlePath_returns:
  "\<forall>c\<in>set coords. sourceCache c \<noteq> None \<Longrightarrow>
   \<exists>ds qp'. circlePath mat4 painter sourceCache coords translate anchor vb ib qp =
      Some (Inr (ds, qp'))"
proof (induction coords arbitrary: qp)
  case Nil
  show ?case by simp
next
  case (Cons c cs)
  then obtain tile where t: "sourceCache c = Some tile" by auto
  obtain ds qp1 where
    a: "circleTile mat4 painter sourceCache c translate anchor vb ib qp = Some (Inr (ds, qp1))"
    using circleTile_returns[where sourceCache = sourceCache and coord = c and tile = tile
      and ?mat4.0 = mat4 and painter = painter and translate = translate and anchor = anchor
      and vb = vb and ib = ib and qp = qp] t by blast
  obtain ds' qp2 where
    "circlePath mat4 painter sourceCache cs translate anchor vb ib qp1 = Some (Inr (ds', qp2))"
    using Cons.IH[of qp1] Cons.prems by auto
  then show ?case using a by simp
qed

section \<open>C1: the draw calls of one tile\<close>

text \<open>
  C1: for a tile whose bucket holds an array of \<open>n\<close> circles (\<open>n\<close> may be 0), the circle
  path returns without an error and issues \<open>(n + 63) div 64\<close> draw calls, the ceiling of
  \<open>n / 64\<close>; their windows are those of batches of 64 quads, one per full batch, followed
  by one batch of \<open>n mod 64\<close> quads when that is not 0; and the quads drawn, one call after
  the other, are the circles of the array in their order (when the view \<open>arr.float32\<close>
  holds the \<open>4 * n\<close> floats of the circles). The scratch buffer has its \<open>64 * 4\<close> floats.
\<close>

theorem circle_draw_calls:
  assumes "sourceCache coord = Some tile" and "getBucket tile = Some bucket"
    and "arr = collisionCircleArrayTemp bucket" and "n = arr_length arr"
    and "length qp = 256"
  shows "\<exists>ds qp'.
     circleTile mat4 painter sourceCache coord translate anchor vb ib qp = Some (Inr (ds, qp')) \<and>
     length ds = (n + 63) div 64 \<and>
     map segments ds = map (\<lambda>b. simpleSegment 0 0 (b * 4) (b * 2)) (batchSizes n) \<and>
     (4 * n \<le> length (float32 arr) \<longrightarrow> concat (map drawnQuads ds) = take (4 * n) (float32 arr))"
  using assms
  by (simp add: circleTile_eq length_tileDraws segments_tileDraws concat_drawnQuads_tileDraws
      circleFloats_wf)

theorem circle_draw_calls_witness:
  "\<exists>ds qp'.
     circleTile exMat4 exPainter (exCache 130) exCoord (0, 0) Viewport_anchor
       vertexBuffer2_array indexBuffer2_array exScratch = Some (Inr (ds, qp')) \<and>
     length ds = 3 \<and>
     map segments ds =
       [simpleSegment 0 0 256 128, simpleSegment 0 0 256 128, simpleSegment 0 0 8 4] \<and>
     concat (map drawnQuads ds) = float32 (exArr 130)"
  using circle_draw_calls[where sourceCache = "exCache 130" and coord = exCoord
      and tile = "exTile 130" and bucket = "exBucket 130" and arr = "exArr 130" and n = 130
      and qp = exScratch and ?mat4.0 = exMat4 and painter = exPainter and translate = "(0, 0)"
      and anchor = Viewport_anchor and vb = vertexBuffer2_array and ib = indexBuffer2_array]
  by (simp add: exCache_def exTile_def exBucket_def exArr_def exScratch_def batchSizes_def
      numeral_2_eq_2)

section \<open>C2: the index buffer of the quad template\<close>

text \<open>
  C2: for every quad \<open>i\<close> below 64, the two triangles stored for quad \<open>i\<close> in the index
  buffer of the quad template (triangles \<open>2 * i\<close> and \<open>2 * i + 1\<close>) reference the vertices
  \<open>4i, 4i+1, 4i+2\<close> and \<open>4i+2, 4i+3, 4i+0\<close>, and the buffer holds
  \<open>maxQuadsPerDrawCall * 2 = 128\<close> triangles of three indices each.
\<close>

theorem indexBuffer2_quads:
  "i < 64 \<Longrightarrow>
     triangle indexBuffer2_array (2 * i) = [4 * i, 4 * i + 1, 4 * i + 2] \<and>
     triangle indexBuffer2_array (2 * i + 1) = [4 * i + 2, 4 * i + 3, 4 * i + 0] \<and>
     length indexBuffer2_array = 3 * nat (maxQuadsPerDrawCall * 2)"
proof -
  assume i: "i < 64"
  have u: "unat (indexBuffer2_array ! (3 * (2 * i))) = 4 * i"
    "unat (indexBuffer2_array ! (3 * (2 * i) + 1)) = 4 * i + 1"
    "unat (indexBuffer2_array ! (3 * (2 * i) + 2)) = 4 * i + 2"
    "unat (indexBuffer2_array ! (3 * (2 * i + 1))) = 4 * i + 2"
    "unat (indexBuffer2_array ! (3 * (2 * i + 1) + 1)) = 4 * i + 3"
    "unat (indexBuffer2_array ! (3 * (2 * i + 1) + 2)) = 4 * i + 0"
    using indexBuffer2_array_unat[OF i, of 0] indexBuffer2_array_unat[OF i, of 1]
      indexBuffer2_array_unat[OF i, of 2] indexBuffer2_array_unat[OF i, of 3]
      indexBuffer2_array_unat[OF i, of 4] indexBuffer2_array_unat[OF i, of 5]
    by (simp_all add: add.commute)
  have t0: "triangle indexBuffer2_array (2 * i) = [4 * i, 4 * i + 1, 4 * i + 2]"
    unfolding triangle_def list.map u ..
  have t1: "triangle indexBuffer2_array (2 * i + 1) = [4 * i + 2, 4 * i + 3, 4 * i + 0]"
    unfolding triangle_def list.map u ..
  show ?thesis
    using t0 t1 by (simp add: length_indexBuffer2_array maxQuadsPerDrawCall_def)
qed

theorem indexBuffer2_quads_witness:
  "(3::nat) < 64 \<and> triangle indexBuffer2_array 6 = [12, 13, 14] \<and>
   triangle indexBuffer2_array 7 = [14, 15, 12] \<and> length indexBuffer2_array = 384"
  using indexBuffer2_quads[of 3] by (simp add: maxQuadsPerDrawCall_def)

section \<open>C3: one packing step\<close>

text \<open>
  C3: in every round of the packing loop of a tile, for every \<open>k\<close> from 0 below
  \<open>batchSize\<close> and every \<open>j\<close> below 4, float \<open>j\<close> of the circle at index
  \<open>quadOffset + k\<close> of the array is, after the copy loop, float \<open>j\<close> of the quad at index
  \<open>batchQuadIdx + k\<close> of the scratch buffer (so width, height, radius and collisionFlag keep
  their places); after line 143 \<open>batchQuadIdx\<close> and \<open>quadOffset\<close> have each advanced by
  \<open>batchSize\<close>; and the circles the rounds read, one round after the other, are the
  circles \<open>0, 1, ..., n - 1\<close> of the array, each once. The scratch buffer has its \<open>64 * 4\<close>
  floats and the view \<open>arr.float32\<close> holds the \<open>4 * n\<close> floats of the circles.
\<close>

theorem packing_step_copies:
  assumes "length qp = 256" and "4 * arr_length arr \<le> length (float32 arr)"
  shows "\<exists>hs. packHeads arr bT bInv vb ib (packStart qp) = Some hs \<and>
     (\<forall>s\<in>set hs.
        (\<forall>k j. 0 \<le> k \<and> k < batchSize arr s \<and> j < 4 \<longrightarrow>
           quadProperties (packCopy arr s) ! nat ((batchQuadIdx s + k) * 4 + int j) =
           float32 arr ! nat ((quadOffset s + k) * 4 + int j)) \<and>
        batchQuadIdx (packCopy arr s) = batchQuadIdx s + batchSize arr s \<and>
        quadOffset (packCopy arr s) = quadOffset s + batchSize arr s) \<and>
     concat (map (copiedCircles arr) hs) = [0 .. int (arr_length arr) - 1]"
proof -
  let ?hs = "map (headState arr bT bInv vb ib qp) [0 ..< (arr_length arr + 63) div 64]"
  have h: "packHeads arr bT bInv vb ib (packStart qp) = Some ?hs"
    by (rule packHeads_packStart[OF assms(1)])
  have b: "batchQuadIdx (packStart qp :: 'a packState) = 0" by (simp add: packStart_def)
  have cc: "concat (map (copiedCircles arr) ?hs) = [0 .. int (arr_length arr) - 1]"
    using packHeads_returns_copied[OF b, of arr bT bInv vb ib] h by (simp add: packStart_def)
  have step: "(\<forall>k j. 0 \<le> k \<and> k < batchSize arr s \<and> j < 4 \<longrightarrow>
           quadProperties (packCopy arr s) ! nat ((batchQuadIdx s + k) * 4 + int j) =
           float32 arr ! nat ((quadOffset s + k) * 4 + int j)) \<and>
        batchQuadIdx (packCopy arr s) = batchQuadIdx s + batchSize arr s \<and>
        quadOffset (packCopy arr s) = quadOffset s + batchSize arr s"
    if "s \<in> set ?hs" for s
  proof -
    from that obtain i where i: "i < (arr_length arr + 63) div 64"
      and s: "s = headState arr bT bInv vb ib qp i" by auto
    note f = headState_in_heads[OF assms(1) i, of bT bInv vb ib, folded s]
    have bs: "batchSize arr s = min (int (arr_length arr) - quadOffset s) 64"
      using f by (simp add: batchSize_head)
    have "quadProperties (packCopy arr s) ! nat ((batchQuadIdx s + k) * 4 + int j) =
           float32 arr ! nat ((quadOffset s + k) * 4 + int j)"
      if kj: "0 \<le> k" "k < batchSize arr s" "j < 4" for k j
    proof -
      have "(quadOffset s + k) * 4 + int j < 4 * int (arr_length arr)"
        using kj bs by simp
      moreover have "0 \<le> (quadOffset s + k) * 4 + int j"
        using kj f(2) by simp
      ultimately have "nat ((quadOffset s + k) * 4 + int j) < 4 * arr_length arr"
        by (simp add: nat_less_iff)
      then have "nat ((quadOffset s + k) * 4 + int j) < length (float32 arr)"
        using assms(2) by simp
      then show ?thesis
        using packCopy_nth[OF f(2) _ f(4) kj, of ] f(1) by (simp add: stored_wf)
    qed
    moreover have "0 \<le> batchSize arr s" using bs f by simp
    ultimately show ?thesis
      by (simp add: batchQuadIdx_packCopy quadOffset_packCopy)
  qed
  show ?thesis using h cc step by blast
qed

theorem packing_step_copies_witness:
  "quadProperties (packCopy (exArr 3) (packStart exScratch :: string packState)) ! 11 = F32 11 \<and>
   batchQuadIdx (packCopy (exArr 3) (packStart exScratch :: string packState)) = 3 \<and>
   quadOffset (packCopy (exArr 3) (packStart exScratch :: string packState)) = 3 \<and>
   map_option (map (copiedCircles (exArr 3)))
     (packHeads (exArr 3) ''T'' ''I'' [] [] (packStart exScratch)) = Some [[0, 1, 2]]"
proof -
  let ?s = "packStart exScratch :: string packState"
  have l: "length exScratch = 256" by (simp add: exScratch_def)
  have w: "4 * arr_length (exArr 3) \<le> length (float32 (exArr 3))" by (simp add: exArr_def)
  have h: "packHeads (exArr 3) ''T'' ''I'' [] [] ?s = Some [?s]"
    using packHeads_packStart[OF l, of "exArr 3" "''T''" "''I''" "[]" "[]"]
    by (simp add: exArr_def packStart_headState[of exScratch _ "''T''" "''I''" "[]" "[]", symmetric])
  have bs: "batchSize (exArr 3) ?s = 3"
    by (simp add: batchSize_def packStart_def exArr_def maxQuadsPerDrawCall_def)
  from packing_step_copies[OF l w, of "''T''" "''I''" "[]" "[]"] h
  have a: "(\<forall>k j. 0 \<le> k \<and> k < batchSize (exArr 3) ?s \<and> j < 4 \<longrightarrow>
           quadProperties (packCopy (exArr 3) ?s) ! nat ((batchQuadIdx ?s + k) * 4 + int j) =
           float32 (exArr 3) ! nat ((quadOffset ?s + k) * 4 + int j))"
    and b: "batchQuadIdx (packCopy (exArr 3) ?s) = batchQuadIdx ?s + batchSize (exArr 3) ?s"
      "quadOffset (packCopy (exArr 3) ?s) = quadOffset ?s + batchSize (exArr 3) ?s"
    and c: "concat (map (copiedCircles (exArr 3)) [?s]) = [0 .. int (arr_length (exArr 3)) - 1]"
    by auto
  have "quadProperties (packCopy (exArr 3) ?s) ! nat ((batchQuadIdx ?s + 2) * 4 + int 3) =
           float32 (exArr 3) ! nat ((quadOffset ?s + 2) * 4 + int 3)"
    using a[rule_format, of 2 3] bs by simp
  then have n: "quadProperties (packCopy (exArr 3) ?s) ! 11 = F32 11"
    by (simp add: packStart_def exArr_def)
  have c': "copiedCircles (exArr 3) ?s = [0, 1, 2]"
    using c by (simp add: exArr_def upto_rec1)
  show ?thesis
    using n b bs c' by (simp add: h) (simp add: packStart_def)
qed

section \<open>C4: the matrix batchInvTransform\<close>

text \<open>
  C4: for a tile with a bucket the circle path returns, and every draw call it issues
  carries as \<open>batchInvTransform\<close> the product of \<open>placementInvProjMatrix\<close> and
  \<open>glCoordMatrix\<close>, multiplied by \<open>placementViewportMatrix\<close>: the left product is
  formed first. The matrix is a function of these three matrices alone: the circles, the
  scratch buffer, the translation and the position matrix do not occur in it.
\<close>

theorem batchInvTransform_product:
  assumes "sourceCache coord = Some tile" and "getBucket tile = Some bucket"
  shows "\<exists>ds qp'.
     circleTile mat4 painter sourceCache coord translate anchor vb ib qp = Some (Inr (ds, qp')) \<and>
     (\<forall>d\<in>set ds. u_batchInvTransform d =
        mat4_mul mat4
          (mat4_mul mat4 (placementInvProjMatrix bucket) (glCoordMatrix painter))
          (placementViewportMatrix bucket))"
  using circleTile_returns[where sourceCache = sourceCache and coord = coord and tile = tile
      and ?mat4.0 = mat4 and painter = painter and translate = translate and anchor = anchor
      and vb = vb and ib = ib and qp = qp] assms
  by (auto simp: reproject_eq)

theorem batchInvTransform_product_witness:
  "map u_batchInvTransform
     (circleDraws exMat4 exPainter (exCache 65) exCoord (3, 0) Viewport_anchor
        vertexBuffer2_array indexBuffer2_array exScratch) =
   [''((invProj x glCoord) x viewport)'', ''((invProj x glCoord) x viewport)'']"
proof -
  obtain ds qp' where
    c: "circleTile exMat4 exPainter (exCache 65) exCoord (3, 0) Viewport_anchor
         vertexBuffer2_array indexBuffer2_array exScratch = Some (Inr (ds, qp'))" and
    d: "\<forall>d\<in>set ds. u_batchInvTransform d =
        mat4_mul exMat4
          (mat4_mul exMat4 (placementInvProjMatrix (exBucket 65)) (glCoordMatrix exPainter))
          (placementViewportMatrix (exBucket 65))"
    using batchInvTransform_product[where sourceCache = "exCache 65" and coord = exCoord and tile = "exTile 65"
        and bucket = "exBucket 65" and ?mat4.0 = exMat4 and painter = exPainter
        and translate = "(3, 0)" and anchor = Viewport_anchor and vb = vertexBuffer2_array
        and ib = indexBuffer2_array and qp = exScratch]
    by (auto simp: exCache_def exTile_def)
  have "length ds = 2"
    using c circleTile_eq[where sourceCache = "exCache 65" and coord = exCoord and tile = "exTile 65"
        and bucket = "exBucket 65" and ?mat4.0 = exMat4 and painter = exPainter
        and translate = "(3, 0)" and anchor = Viewport_anchor and vb = vertexBuffer2_array
        and ib = indexBuffer2_array and qp = exScratch]
    by (simp add: exCache_def exTile_def exScratch_def length_tileDraws exBucket_def exArr_def)
  then obtain d1 d2 where ds: "ds = [d1, d2]"
    by (metis (no_types, opaque_lifting) One_nat_def Suc_1 length_0_conv length_Suc_conv)
  have cd: "circleDraws exMat4 exPainter (exCache 65) exCoord (3, 0) Viewport_anchor
        vertexBuffer2_array indexBuffer2_array exScratch = ds"
    by (simp add: circleDraws_def c)
  show ?thesis
    unfolding cd ds
    using d by (simp add: ds exMat4_def exMul_def exBucket_def exPainter_def)
qed

section \<open>C5: the window of a flushed batch\<close>

text \<open>
  C5, as amended: every draw call of a tile is handed the whole scratch buffer of
  \<open>64 * 4\<close> floats, whatever the size of the batch. Its window covers \<open>batchQuadIdx * 4\<close>
  vertices and \<open>batchQuadIdx * 2\<close> triangles of the template buffers, where
  \<open>batchQuadIdx\<close>, the size of the batch, is between 1 and 64; and the first
  \<open>batchQuadIdx * 4\<close> floats of the buffer it is handed are the floats of the circles of
  the batch, \<open>64 * k\<close> onwards for draw call \<open>k\<close>. As the claim is written (the region
  handed over has \<open>batchQuadIdx * 4\<close> floats) it fails for a tile of two circles: the
  draw call is handed 256 floats and its window covers 8 vertices.
\<close>

theorem flushed_batch_window:
  assumes "sourceCache coord = Some tile" and "getBucket tile = Some bucket"
    and "arr = collisionCircleArrayTemp bucket" and "n = arr_length arr"
    and "length qp = 256"
  shows "\<exists>ds qp'.
     circleTile mat4 painter sourceCache coord translate anchor vb ib qp = Some (Inr (ds, qp')) \<and>
     length ds = length (batchSizes n) \<and>
     (\<forall>k < length ds.
        length (u_quadProperties (ds ! k)) = 256 \<and>
        segments (ds ! k) = simpleSegment 0 0 (batchSizes n ! k * 4) (batchSizes n ! k * 2) \<and>
        0 < batchSizes n ! k \<and> batchSizes n ! k \<le> maxQuadsPerDrawCall \<and>
        take (4 * nat (batchSizes n ! k)) (u_quadProperties (ds ! k)) =
          circleFloats arr (64 * k) (64 * k + nat (batchSizes n ! k)) \<and>
        layoutVertexBuffer (ds ! k) = vb \<and> indexBuffer (ds ! k) = ib) \<and>
     (\<forall>s. segments (flush bT bInv vb ib s) =
            simpleSegment 0 0 (batchQuadIdx s * 4) (batchQuadIdx s * 2) \<and>
          u_quadProperties (flush bT bInv vb ib s) = quadProperties s)"
proof -
  let ?ds = "tileDraws arr (tileMatrix painter coord tile translate anchor)
               (reproject mat4 painter bucket) vb ib qp"
  have c: "circleTile mat4 painter sourceCache coord translate anchor vb ib qp =
      Some (Inr (?ds, scratchEnd arr qp))"
    using assms by (simp add: circleTile_eq)
  have l: "length ?ds = length (batchSizes n)"
    using assms by (simp add: length_tileDraws length_batchSizes)
  have each: "length (u_quadProperties (?ds ! k)) = 256 \<and>
        segments (?ds ! k) = simpleSegment 0 0 (batchSizes n ! k * 4) (batchSizes n ! k * 2) \<and>
        0 < batchSizes n ! k \<and> batchSizes n ! k \<le> maxQuadsPerDrawCall \<and>
        take (4 * nat (batchSizes n ! k)) (u_quadProperties (?ds ! k)) =
          circleFloats arr (64 * k) (64 * k + nat (batchSizes n ! k)) \<and>
        layoutVertexBuffer (?ds ! k) = vb \<and> indexBuffer (?ds ! k) = ib"
    if "k < length ?ds" for k
  proof -
    have k: "k < (arr_length arr + 63) div 64" using that by (simp add: length_tileDraws)
    have len: "length (if k < arr_length arr div 64 then fullBatch arr k else scratchEnd arr qp) = 256"
      using assms(5) by (simp add: length_scratchEnd)
    show ?thesis
      unfolding nth_tileDraws[OF k] assms(4)
      using nth_batchSizes(2,3)[OF k] take_batch[OF assms(5) k] len
      by (simp add: circleDrawCall_def maxQuadsPerDrawCall_def)
  qed
  have fl: "\<forall>s. segments (flush bT bInv vb ib s) =
            simpleSegment 0 0 (batchQuadIdx s * 4) (batchQuadIdx s * 2) \<and>
          u_quadProperties (flush bT bInv vb ib s) = quadProperties s"
    by (simp add: flush_def)
  show ?thesis using c l each fl by blast
qed

theorem flushed_batch_window_witness:
  "\<exists>d qp'.
     circleTile exMat4 exPainter (exCache 2) exCoord (0, 0) Viewport_anchor
       vertexBuffer2_array indexBuffer2_array exScratch = Some (Inr ([d], qp')) \<and>
     length (u_quadProperties d) = 256 \<and>
     segments d = simpleSegment 0 0 8 4 \<and>
     take 8 (u_quadProperties d) = float32 (exArr 2) \<and>
     layoutVertexBuffer d = vertexBuffer2_array \<and> indexBuffer d = indexBuffer2_array"
proof -
  have b: "batchSizes 2 = [2]" by (simp add: batchSizes_def)
  have f: "circleFloats (exArr 2) 0 (Suc (Suc 0)) = float32 (exArr 2)"
    using circleFloats_wf[of "exArr 2"] by (simp add: exArr_def numeral_2_eq_2)
  have p: "exCache 2 exCoord = Some (exTile 2)" "getBucket (exTile 2) = Some (exBucket 2)"
    "exArr 2 = collisionCircleArrayTemp (exBucket 2)" "2 = arr_length (exArr 2)"
    "length exScratch = 256"
    by (simp_all add: exCache_def exTile_def exBucket_def exArr_def exScratch_def)
  note inst = flushed_batch_window[where sourceCache = "exCache 2" and coord = exCoord and tile = "exTile 2"
        and bucket = "exBucket 2" and arr = "exArr 2" and n = 2 and qp = exScratch
        and ?mat4.0 = exMat4 and painter = exPainter and translate = "(0, 0)"
        and anchor = Viewport_anchor and vb = vertexBuffer2_array and ib = indexBuffer2_array
        and bT = "''T''" and bInv = "''I''", OF p]
  from inst obtain ds qp' where
    c: "circleTile exMat4 exPainter (exCache 2) exCoord (0, 0) Viewport_anchor
         vertexBuffer2_array indexBuffer2_array exScratch = Some (Inr (ds, qp'))" and
    l: "length ds = length (batchSizes 2)" and
    e: "\<forall>k < length ds.
        length (u_quadProperties (ds ! k)) = 256 \<and>
        segments (ds ! k) = simpleSegment 0 0 (batchSizes 2 ! k * 4) (batchSizes 2 ! k * 2) \<and>
        0 < batchSizes 2 ! k \<and> batchSizes 2 ! k \<le> maxQuadsPerDrawCall \<and>
        take (4 * nat (batchSizes 2 ! k)) (u_quadProperties (ds ! k)) =
          circleFloats (exArr 2) (64 * k) (64 * k + nat (batchSizes 2 ! k)) \<and>
        layoutVertexBuffer (ds ! k) = vertexBuffer2_array \<and>
        indexBuffer (ds ! k) = indexBuffer2_array"
    by blast
  from l b obtain d where ds: "ds = [d]" by (cases ds) auto
  show ?thesis
    using c e f by (simp add: ds b)
qed

theorem uploaded_buffer_counterexample:
  "map (length \<circ> u_quadProperties)
     (circleDraws exMat4 exPainter (exCache 2) exCoord (0, 0) Viewport_anchor
        vertexBuffer2_array indexBuffer2_array exScratch) = [256] \<and>
   map (vertexLength \<circ> segments)
     (circleDraws exMat4 exPainter (exCache 2) exCoord (0, 0) Viewport_anchor
        vertexBuffer2_array indexBuffer2_array exScratch) = [2 * 4] \<and>
   map (primitiveLength \<circ> segments)
     (circleDraws exMat4 exPainter (exCache 2) exCoord (0, 0) Viewport_anchor
        vertexBuffer2_array indexBuffer2_array exScratch) = [2 * 2] \<and>
   (256 :: nat) \<noteq> 2 * 4"
proof -
  have l: "length exScratch = 256" by (simp add: exScratch_def)
  have c: "circleDraws exMat4 exPainter (exCache 2) exCoord (0, 0) Viewport_anchor
        vertexBuffer2_array indexBuffer2_array exScratch =
      tileDraws (exArr 2) (tileMatrix exPainter exCoord (exTile 2) (0, 0) Viewport_anchor)
        (reproject exMat4 exPainter (exBucket 2)) vertexBuffer2_array indexBuffer2_array exScratch"
    using circleTile_eq[where sourceCache = "exCache 2" and coord = exCoord and tile = "exTile 2"
        and bucket = "exBucket 2" and qp = exScratch
        and ?mat4.0 = exMat4 and painter = exPainter and translate = "(0, 0)"
        and anchor = Viewport_anchor and vb = vertexBuffer2_array and ib = indexBuffer2_array]
    by (simp add: circleDraws_def exCache_def exTile_def exBucket_def l)
  show ?thesis
    unfolding c
    by (simp add: tileDraws_def fullDraws_def circleDrawCall_def simpleSegment_def
        length_scratchEnd[OF l] exArr_def)
qed

section \<open>C6: the translation\<close>

text \<open>
  C6, as amended: for a tile with a bucket and a translation that is not zero (in either
  anchor space), the box path, where the bucket has the collision box buffers asked for,
  draws with the matrix \<open>translatePosMatrix(coord.posMatrix, tile, translate,
  translateAnchor)\<close> where the run without translation draws with \<open>coord.posMatrix\<close>
  (without those buffers it draws nothing in either run); and the circle path, whether
  the bucket has those buffers or not, does the same: every draw call of the tile carries
  that translated matrix as \<open>batchTransform\<close>, where the run without translation carries
  \<open>coord.posMatrix\<close>, and the two runs issue the same number of draw calls. Only
  \<open>batchInvTransform\<close> is the same in the two runs. As the claim is written (the
  translation never reaches the circle path) it fails: lines 113 to 116 translate the
  matrix of the circle path as lines 32 to 35 translate that of the box path.
\<close>

theorem translate_reaches_both_paths:
  assumes "sourceCache coord = Some tile" and "getBucket tile = Some bucket"
    and "fst translate \<noteq> 0 \<or> snd translate \<noteq> 0"
  shows
    "(\<forall>buffers.
        (if isText then textCollisionBox bucket else iconCollisionBox bucket) = Some buffers \<longrightarrow>
        boxTile painter sourceCache coord translate anchor isText =
          Inr [\<lparr>box_primitive = LINES,
                box_posMatrix = translatePosMatrix painter (posMatrix coord) tile translate anchor,
                box_tile = tile, box_buffers = buffers\<rparr>] \<and>
        boxTile painter sourceCache coord (0, 0) anchor isText =
          Inr [\<lparr>box_primitive = LINES, box_posMatrix = posMatrix coord,
                box_tile = tile, box_buffers = buffers\<rparr>]) \<and>
     ((if isText then textCollisionBox bucket else iconCollisionBox bucket) = None \<longrightarrow>
        boxTile painter sourceCache coord translate anchor isText = Inr [] \<and>
        boxTile painter sourceCache coord (0, 0) anchor isText = Inr []) \<and>
     (\<exists>ds qp' ds0 qp0.
        circleTile mat4 painter sourceCache coord translate anchor vb ib qp =
          Some (Inr (ds, qp')) \<and>
        circleTile mat4 painter sourceCache coord (0, 0) anchor vb ib qp =
          Some (Inr (ds0, qp0)) \<and>
        (\<forall>d\<in>set ds.
           u_batchTransform d = translatePosMatrix painter (posMatrix coord) tile translate anchor \<and>
           u_batchInvTransform d = reproject mat4 painter bucket) \<and>
        (\<forall>d\<in>set ds0.
           u_batchTransform d = posMatrix coord \<and>
           u_batchInvTransform d = reproject mat4 painter bucket) \<and>
        (length qp = 256 \<longrightarrow>
           length ds = (arr_length (collisionCircleArrayTemp bucket) + 63) div 64 \<and>
           length ds0 = length ds))"
proof -
  have t: "tileMatrix painter coord tile translate anchor =
      translatePosMatrix painter (posMatrix coord) tile translate anchor"
    using assms(3) by (auto simp: tileMatrix_def)
  have t0: "tileMatrix painter coord tile (0, 0) anchor = posMatrix coord"
    by (simp add: tileMatrix_def)
  obtain ds qp' where d:
    "circleTile mat4 painter sourceCache coord translate anchor vb ib qp = Some (Inr (ds, qp'))"
    "\<forall>d\<in>set ds. u_batchTransform d = tileMatrix painter coord tile translate anchor \<and>
                 u_batchInvTransform d = reproject mat4 painter bucket"
    using circleTile_returns[where sourceCache = sourceCache and coord = coord and tile = tile
      and ?mat4.0 = mat4 and painter = painter and translate = translate and anchor = anchor
      and vb = vb and ib = ib and qp = qp] assms(1,2) by blast
  obtain ds0 qp0 where d0:
    "circleTile mat4 painter sourceCache coord (0, 0) anchor vb ib qp = Some (Inr (ds0, qp0))"
    "\<forall>d\<in>set ds0. u_batchTransform d = tileMatrix painter coord tile (0, 0) anchor \<and>
                 u_batchInvTransform d = reproject mat4 painter bucket"
    using circleTile_returns[where sourceCache = sourceCache and coord = coord and tile = tile
      and ?mat4.0 = mat4 and painter = painter and translate = "(0, 0)" and anchor = anchor
      and vb = vb and ib = ib and qp = qp] assms(1,2) by blast
  have len: "length ds = (arr_length (collisionCircleArrayTemp bucket) + 63) div 64 \<and>
      length ds0 = length ds" if l: "length qp = 256"
  proof -
    have "length ds = (arr_length (collisionCircleArrayTemp bucket) + 63) div 64"
      using d(1) circleTile_eq[where sourceCache = sourceCache and coord = coord and tile = tile
        and bucket = bucket and ?mat4.0 = mat4 and painter = painter and translate = translate
        and anchor = anchor and vb = vb and ib = ib and qp = qp, OF assms(1,2) l]
      by (auto simp: length_tileDraws)
    moreover have "length ds0 = (arr_length (collisionCircleArrayTemp bucket) + 63) div 64"
      using d0(1) circleTile_eq[where sourceCache = sourceCache and coord = coord and tile = tile
        and bucket = bucket and ?mat4.0 = mat4 and painter = painter and translate = "(0, 0)"
        and anchor = anchor and vb = vb and ib = ib and qp = qp, OF assms(1,2) l]
      by (auto simp: length_tileDraws)
    ultimately show ?thesis by simp
  qed
  have box: "boxTile painter sourceCache coord translate anchor isText =
          Inr [\<lparr>box_primitive = LINES,
                box_posMatrix = translatePosMatrix painter (posMatrix coord) tile translate anchor,
                box_tile = tile, box_buffers = buffers\<rparr>] \<and>
        boxTile painter sourceCache coord (0, 0) anchor isText =
          Inr [\<lparr>box_primitive = LINES, box_posMatrix = posMatrix coord,
                box_tile = tile, box_buffers = buffers\<rparr>]"
    if b: "(if isText then textCollisionBox bucket else iconCollisionBox bucket) = Some buffers"
    for buffers
    using boxTile_eq[where sourceCache = sourceCache and coord = coord and tile = tile
        and bucket = bucket and isText = isText and buffers = buffers and painter = painter
        and translate = translate and anchor = anchor, OF assms(1,2) b]
      boxTile_eq[where sourceCache = sourceCache and coord = coord and tile = tile
        and bucket = bucket and isText = isText and buffers = buffers and painter = painter
        and translate = "(0, 0)" and anchor = anchor, OF assms(1,2) b]
    unfolding t t0 by simp
  have nobox: "boxTile painter sourceCache coord translate anchor isText = Inr [] \<and>
        boxTile painter sourceCache coord (0, 0) anchor isText = Inr []"
    if "(if isText then textCollisionBox bucket else iconCollisionBox bucket) = None"
    using that assms(1,2) by (simp add: boxTile_def)
  have circ: "\<exists>ds qp' ds0 qp0.
        circleTile mat4 painter sourceCache coord translate anchor vb ib qp =
          Some (Inr (ds, qp')) \<and>
        circleTile mat4 painter sourceCache coord (0, 0) anchor vb ib qp =
          Some (Inr (ds0, qp0)) \<and>
        (\<forall>d\<in>set ds.
           u_batchTransform d = translatePosMatrix painter (posMatrix coord) tile translate anchor \<and>
           u_batchInvTransform d = reproject mat4 painter bucket) \<and>
        (\<forall>d\<in>set ds0.
           u_batchTransform d = posMatrix coord \<and>
           u_batchInvTransform d = reproject mat4 painter bucket) \<and>
        (length qp = 256 \<longrightarrow>
           length ds = (arr_length (collisionCircleArrayTemp bucket) + 63) div 64 \<and>
           length ds0 = length ds)"
    using d d0 len unfolding t t0 by blast
  show ?thesis
    using box nobox circ by blast
qed

theorem translate_reaches_both_paths_witness:
  "boxTile exPainter (exCache 1) exCoord (5, 0) Viewport_anchor True =
     Inr [\<lparr>box_primitive = LINES, box_posMatrix = ''translated(pos)'',
           box_tile = exTile 1, box_buffers = 7\<rparr>] \<and>
   boxTile exPainter (exCache 1) exCoord (0, 0) Viewport_anchor True =
     Inr [\<lparr>box_primitive = LINES, box_posMatrix = ''pos'',
           box_tile = exTile 1, box_buffers = 7\<rparr>] \<and>
   boxTile exPainter (exCache 1) exCoord (5, 0) Viewport_anchor False = Inr [] \<and>
   boxTile exPainter (exCache 1) exCoord (0, 0) Viewport_anchor False = Inr [] \<and>
   (\<exists>d qp' d0 qp0.
      circleTile exMat4 exPainter (exCache 1) exCoord (5, 0) Viewport_anchor
        vertexBuffer2_array indexBuffer2_array exScratch = Some (Inr ([d], qp')) \<and>
      circleTile exMat4 exPainter (exCache 1) exCoord (0, 0) Viewport_anchor
        vertexBuffer2_array indexBuffer2_array exScratch = Some (Inr ([d0], qp0)) \<and>
      u_batchTransform d = ''translated(pos)'' \<and>
      u_batchInvTransform d = ''((invProj x glCoord) x viewport)'' \<and>
      u_batchTransform d0 = ''pos'' \<and>
      u_batchInvTransform d0 = ''((invProj x glCoord) x viewport)'')"
proof -
  have p: "exCache 1 exCoord = Some (exTile 1)" "getBucket (exTile 1) = Some (exBucket 1)"
    "fst (5::real, 0::real) \<noteq> 0 \<or> snd (5::real, 0::real) \<noteq> 0"
    by (simp_all add: exCache_def exTile_def)
  have bx: "(if True then textCollisionBox (exBucket 1) else iconCollisionBox (exBucket 1)) = Some 7"
    "(if False then textCollisionBox (exBucket 1) else iconCollisionBox (exBucket 1)) = None"
    "length exScratch = 256"
    "(arr_length (collisionCircleArrayTemp (exBucket 1)) + 63) div 64 = 1"
    by (simp_all add: exBucket_def exScratch_def exArr_def)
  have m: "posMatrix exCoord = ''pos''"
    "translatePosMatrix exPainter ''pos'' (exTile 1) (5, 0) Viewport_anchor = ''translated(pos)''"
    "reproject exMat4 exPainter (exBucket 1) = ''((invProj x glCoord) x viewport)''"
    by (simp_all add: exPainter_def exTranslate_def exCoord_def reproject_eq exMat4_def exMul_def
        exBucket_def)
  note T = translate_reaches_both_paths[where sourceCache = "exCache 1" and coord = exCoord
        and tile = "exTile 1" and bucket = "exBucket 1" and isText = True
        and translate = "(5, 0)" and painter = exPainter and anchor = Viewport_anchor
        and ?mat4.0 = exMat4 and vb = vertexBuffer2_array and ib = indexBuffer2_array
        and qp = exScratch, OF p, unfolded m]
  note F = translate_reaches_both_paths[where sourceCache = "exCache 1" and coord = exCoord
        and tile = "exTile 1" and bucket = "exBucket 1" and isText = False
        and translate = "(5, 0)" and painter = exPainter and anchor = Viewport_anchor
        and ?mat4.0 = exMat4 and vb = vertexBuffer2_array and ib = indexBuffer2_array
        and qp = exScratch, OF p, unfolded m]
  have b1: "boxTile exPainter (exCache 1) exCoord (5, 0) Viewport_anchor True =
     Inr [\<lparr>box_primitive = LINES, box_posMatrix = ''translated(pos)'',
           box_tile = exTile 1, box_buffers = 7\<rparr>] \<and>
   boxTile exPainter (exCache 1) exCoord (0, 0) Viewport_anchor True =
     Inr [\<lparr>box_primitive = LINES, box_posMatrix = ''pos'',
           box_tile = exTile 1, box_buffers = 7\<rparr>]"
    using T bx(1) by blast
  have b2: "boxTile exPainter (exCache 1) exCoord (5, 0) Viewport_anchor False = Inr [] \<and>
   boxTile exPainter (exCache 1) exCoord (0, 0) Viewport_anchor False = Inr []"
    using F bx(2) by blast
  from T obtain ds qp' ds0 qp0 where
    c: "circleTile exMat4 exPainter (exCache 1) exCoord (5, 0) Viewport_anchor
        vertexBuffer2_array indexBuffer2_array exScratch = Some (Inr (ds, qp'))"
       "circleTile exMat4 exPainter (exCache 1) exCoord (0, 0) Viewport_anchor
        vertexBuffer2_array indexBuffer2_array exScratch = Some (Inr (ds0, qp0))" and
    a: "\<forall>d\<in>set ds. u_batchTransform d = ''translated(pos)'' \<and>
           u_batchInvTransform d = ''((invProj x glCoord) x viewport)''"
       "\<forall>d\<in>set ds0. u_batchTransform d = ''pos'' \<and>
           u_batchInvTransform d = ''((invProj x glCoord) x viewport)''" and
    l: "length exScratch = 256 \<longrightarrow>
           length ds = (arr_length (collisionCircleArrayTemp (exBucket 1)) + 63) div 64 \<and>
           length ds0 = length ds"
    by blast
  from l bx(3,4) have "length ds = 1" "length ds0 = 1" by simp_all
  then obtain d d0 where e: "ds = [d]" "ds0 = [d0]"
    by (metis One_nat_def length_0_conv length_Suc_conv)
  show ?thesis
    using b1 b2 c a unfolding e by auto
qed

theorem circle_batchTransform_counterexample:
  "map u_batchTransform
     (circleDraws exMat4 exPainter (exCache 1) exCoord (5, 0) Viewport_anchor
        vertexBuffer2_array indexBuffer2_array exScratch) = [''translated(pos)''] \<and>
   map u_batchTransform
     (circleDraws exMat4 exPainter (exCache 1) exCoord (0, 0) Viewport_anchor
        vertexBuffer2_array indexBuffer2_array exScratch) = [''pos''] \<and>
   ''translated(pos)'' \<noteq> ''pos''"
proof -
  have l: "length exScratch = 256" by (simp add: exScratch_def)
  have c: "circleDraws exMat4 exPainter (exCache 1) exCoord t Viewport_anchor
        vertexBuffer2_array indexBuffer2_array exScratch =
      tileDraws (exArr 1) (tileMatrix exPainter exCoord (exTile 1) t Viewport_anchor)
        (reproject exMat4 exPainter (exBucket 1)) vertexBuffer2_array indexBuffer2_array exScratch"
    for t
    using circleTile_eq[where sourceCache = "exCache 1" and coord = exCoord and tile = "exTile 1"
        and bucket = "exBucket 1" and qp = exScratch
        and ?mat4.0 = exMat4 and painter = exPainter and translate = t
        and anchor = Viewport_anchor and vb = vertexBuffer2_array and ib = indexBuffer2_array]
    by (simp add: circleDraws_def exCache_def exTile_def exBucket_def l)
  show ?thesis
    unfolding c
    by (simp add: tileDraws_def fullDraws_def circleDrawCall_def tileMatrix_def exArr_def
        exPainter_def exTranslate_def exCoord_def)
qed

section \<open>C7: at most 64 quads in a batch\<close>

text \<open>
  C7: every value \<open>batchQuadIdx\<close> holds while the packing loop of a tile runs (at the
  start, on entry of each round, after each increment of the copy loop, and at the end of
  each round) lies between 0 and \<open>maxQuadsPerDrawCall = 64\<close>, for every array and every
  scratch buffer.
\<close>

theorem batchQuadIdx_bounded:
  "\<exists>vs. batchQuadIdxValues arr bT bInv vb ib (packStart qp) = Some vs \<and>
        (\<forall>v\<in>set vs. 0 \<le> v \<and> v \<le> maxQuadsPerDrawCall)"
proof -
  have b: "batchQuadIdx (packStart qp :: 'a packState) = 0" by (simp add: packStart_def)
  obtain hs where hs: "packHeads arr bT bInv vb ib (packStart qp) = Some hs"
    "\<forall>h\<in>set hs. batchQuadIdx h = 0 \<and> quadOffset h < int (arr_length arr)"
    using packHeads_returns[OF b, of arr bT bInv vb ib] by blast
  have "\<forall>h\<in>set hs. \<forall>v\<in>set (roundIdxs arr bT bInv vb ib h). 0 \<le> v \<and> v \<le> 64"
  proof
    fix h assume "h \<in> set hs"
    then have "batchQuadIdx h = 0" "quadOffset h < int (arr_length arr)" using hs(2) by auto
    then show "\<forall>v\<in>set (roundIdxs arr bT bInv vb ib h). 0 \<le> v \<and> v \<le> 64"
      by (rule roundIdxs_bounded)
  qed
  then show ?thesis
    using hs(1) b by (auto simp: batchQuadIdxValues_def maxQuadsPerDrawCall_def)
qed

theorem batchQuadIdx_bounded_witness:
  "batchQuadIdxValues (exArr 2) ''T'' ''I'' [] [] (packStart exScratch) = Some [0, 0, 1, 2, 2] \<and>
   (0::int) \<le> 2 \<and> 2 \<le> maxQuadsPerDrawCall"
proof -
  have h: "packHeads (exArr 2) ''T'' ''I'' [] [] (packStart exScratch) =
      Some [headState (exArr 2) ''T'' ''I'' [] [] exScratch 0]"
    using packHeads_packStart[of exScratch "exArr 2" "''T''" "''I''" "[]" "[]"]
    by (simp add: exScratch_def exArr_def)
  have s: "batchQuadIdx (headState (exArr 2) ''T'' ''I'' [] [] exScratch 0) = 0"
    "quadOffset (headState (exArr 2) ''T'' ''I'' [] [] exScratch 0) < int (arr_length (exArr 2))"
    by (simp_all add: headState_def exArr_def)
  have r: "roundIdxs (exArr 2) ''T'' ''I'' [] [] (headState (exArr 2) ''T'' ''I'' [] [] exScratch 0)
      = [0, 1, 2, 2]"
    unfolding roundIdxs_head[OF s]
    using batchSize_head[OF s] batchQuadIdx_packIter_head[OF s, of "''T''" "''I''" "[]" "[]"]
    by (simp add: headState_def exArr_def upto_rec1)
  have v: "batchQuadIdxValues (exArr 2) ''T'' ''I'' [] [] (packStart exScratch) =
      Some [0, 0, 1, 2, 2]"
    unfolding batchQuadIdxValues_def h by (simp add: r packStart_def)
  show ?thesis
    using batchQuadIdx_bounded[of "exArr 2" "''T''" "''I''" "[]" "[]" exScratch] v
    by (simp add: maxQuadsPerDrawCall_def)
qed

section \<open>C8: tiles with nothing to draw\<close>

text \<open>
  C8: for a tile of the source cache, a missing bucket makes both paths skip the tile, a
  bucket without the collision box buffers asked for makes the box path skip it, and a
  bucket with an empty circle array makes the circle path skip it: the path returns
  without an error, with no draw call, and the circle path leaves the scratch buffer as
  it was. And whatever the buckets hold, the whole function returns without an error when
  every coordinate has a tile.
\<close>

theorem missing_data_skipped:
  "(sourceCache coord = Some tile \<longrightarrow>
      (getBucket tile = None \<longrightarrow>
         boxTile painter sourceCache coord translate anchor isText = Inr [] \<and>
         circleTile mat4 painter sourceCache coord translate anchor vb ib qp =
           Some (Inr ([], qp))) \<and>
      (\<forall>bucket. getBucket tile = Some bucket \<and>
         (if isText then textCollisionBox bucket else iconCollisionBox bucket) = None \<longrightarrow>
         boxTile painter sourceCache coord translate anchor isText = Inr []) \<and>
      (\<forall>bucket. getBucket tile = Some bucket \<and>
         arr_length (collisionCircleArrayTemp bucket) = 0 \<longrightarrow>
         circleTile mat4 painter sourceCache coord translate anchor vb ib qp =
           Some (Inr ([], qp)))) \<and>
   ((\<forall>c\<in>set coords. sourceCache c \<noteq> None) \<longrightarrow>
      (\<exists>layer' boxes circles.
         drawCollisionDebug mat4 painter sourceCache layer coords translate anchor isText =
           Some (Inr (layer', boxes, circles))))"
proof -
  have whole: "\<exists>layer' boxes circles.
         drawCollisionDebug mat4 painter sourceCache layer coords translate anchor isText =
           Some (Inr (layer', boxes, circles))"
    if a: "\<forall>c\<in>set coords. sourceCache c \<noteq> None"
  proof -
    obtain boxes where b: "boxPath painter sourceCache coords translate anchor isText = Inr boxes"
      using boxPath_returns[OF a] by blast
    let ?vb = "case vertexBuffer2 layer of None \<Rightarrow> vertexBuffer2_array | Some v \<Rightarrow> v"
    let ?ib = "case indexBuffer2 layer of None \<Rightarrow> indexBuffer2_array | Some v \<Rightarrow> v"
    obtain circles qp' where
      "circlePath mat4 painter sourceCache coords translate anchor ?vb ?ib
         (replicate (nat (maxQuadsPerDrawCall * 4)) (F32 0)) = Some (Inr (circles, qp'))"
      using circlePath_returns[OF a] by blast
    then show ?thesis using b by (simp add: drawCollisionDebug_def Let_def)
  qed
  show ?thesis
    using whole by (auto simp: boxTile_def circleTile_def)
qed

theorem missing_data_skipped_witness:
  "boxTile exPainter exCacheNoBucket exCoord (5, 0) Viewport_anchor True = Inr [] \<and>
   circleTile exMat4 exPainter exCacheNoBucket exCoord (5, 0) Viewport_anchor
     vertexBuffer2_array indexBuffer2_array exScratch = Some (Inr ([], exScratch)) \<and>
   boxTile exPainter (exCache 0) exCoord (5, 0) Viewport_anchor False = Inr [] \<and>
   circleTile exMat4 exPainter (exCache 0) exCoord (5, 0) Viewport_anchor
     vertexBuffer2_array indexBuffer2_array exScratch = Some (Inr ([], exScratch)) \<and>
   (\<exists>layer' boxes circles.
      drawCollisionDebug exMat4 exPainter exCacheNoBucket
        \<lparr>vertexBuffer2 = None, indexBuffer2 = None\<rparr> [exCoord, exCoord] (5, 0)
        Viewport_anchor True = Some (Inr (layer', boxes, circles)))"
proof -
  note a = missing_data_skipped[where sourceCache = exCacheNoBucket and coord = exCoord and tile = exTileNoBucket
      and painter = exPainter and translate = "(5, 0)" and anchor = Viewport_anchor
      and isText = True and ?mat4.0 = exMat4 and vb = vertexBuffer2_array
      and ib = indexBuffer2_array and qp = exScratch and coords = "[exCoord, exCoord]"
      and layer = "\<lparr>vertexBuffer2 = None, indexBuffer2 = None\<rparr>"]
  note b = missing_data_skipped[where sourceCache = "exCache 0" and coord = exCoord and tile = "exTile 0"
      and painter = exPainter and translate = "(5, 0)" and anchor = Viewport_anchor
      and isText = False and ?mat4.0 = exMat4 and vb = vertexBuffer2_array
      and ib = indexBuffer2_array and qp = exScratch and coords = "[]"
      and layer = "\<lparr>vertexBuffer2 = None, indexBuffer2 = None\<rparr>"]
  have p: "exCacheNoBucket exCoord = Some exTileNoBucket" "getBucket exTileNoBucket = None"
    "exCache 0 exCoord = Some (exTile 0)" "getBucket (exTile 0) = Some (exBucket 0)"
    "iconCollisionBox (exBucket 0) = None"
    "arr_length (collisionCircleArrayTemp (exBucket 0)) = 0"
    by (simp_all add: exCacheNoBucket_def exTileNoBucket_def exCache_def exTile_def exBucket_def
        exArr_def)
  show ?thesis
    using a b p by simp
qed

section \<open>C9: the packing loop ends\<close>

text \<open>
  C9: the packing loop of a tile returns, for every array and every scratch buffer; and
  at the top of every round it runs, \<open>batchQuadIdx\<close> is below 64, \<open>batchSize\<close> is at
  least 1, and the round moves \<open>quadOffset\<close> up, to at most the length of the array.
\<close>

theorem packLoop_terminates:
  "(\<exists>r. packLoop arr bT bInv vb ib (packStart qp) = Some r) \<and>
   (\<exists>hs. packHeads arr bT bInv vb ib (packStart qp) = Some hs \<and>
      (\<forall>s\<in>set hs.
         batchQuadIdx s < maxQuadsPerDrawCall \<and>
         1 \<le> batchSize arr s \<and>
         quadOffset s < quadOffset (packIter arr bT bInv vb ib s) \<and>
         quadOffset (packIter arr bT bInv vb ib s) \<le> int (arr_length arr)))"
proof -
  have b: "batchQuadIdx (packStart qp :: 'a packState) = 0" by (simp add: packStart_def)
  obtain hs where hs: "packHeads arr bT bInv vb ib (packStart qp) = Some hs"
    "\<forall>h\<in>set hs. batchQuadIdx h = 0 \<and> quadOffset h < int (arr_length arr)"
    using packHeads_returns[OF b, of arr bT bInv vb ib] by blast
  have "\<forall>s\<in>set hs.
         batchQuadIdx s < maxQuadsPerDrawCall \<and>
         1 \<le> batchSize arr s \<and>
         quadOffset s < quadOffset (packIter arr bT bInv vb ib s) \<and>
         quadOffset (packIter arr bT bInv vb ib s) \<le> int (arr_length arr)"
  proof
    fix s assume "s \<in> set hs"
    then have s: "batchQuadIdx s = 0" "quadOffset s < int (arr_length arr)" using hs(2) by auto
    show "batchQuadIdx s < maxQuadsPerDrawCall \<and>
         1 \<le> batchSize arr s \<and>
         quadOffset s < quadOffset (packIter arr bT bInv vb ib s) \<and>
         quadOffset (packIter arr bT bInv vb ib s) \<le> int (arr_length arr)"
      using head_round[OF s, of bT bInv vb ib] s(1) by (simp add: maxQuadsPerDrawCall_def)
  qed
  then show ?thesis
    using packLoop_returns[OF b, of arr bT bInv vb ib] hs(1) by blast
qed

theorem packLoop_terminates_witness:
  "(\<exists>r. packLoop (exArr 130) ''T'' ''I'' [] [] (packStart exScratch) = Some r) \<and>
   map_option (map quadOffset) (packHeads (exArr 130) ''T'' ''I'' [] [] (packStart exScratch)) =
     Some [0, 64, 128] \<and>
   map_option (map (batchSize (exArr 130)))
     (packHeads (exArr 130) ''T'' ''I'' [] [] (packStart exScratch)) = Some [64, 64, 2]"
proof -
  have u: "[0 ..< 3] = [0, 1, 2::nat]" by (simp add: upt_rec)
  have h: "packHeads (exArr 130) ''T'' ''I'' [] [] (packStart exScratch) =
      Some (map (headState (exArr 130) ''T'' ''I'' [] [] exScratch) [0 ..< 3])"
    using packHeads_packStart[of exScratch "exArr 130" "''T''" "''I''" "[]" "[]"]
    by (simp add: exScratch_def exArr_def)
  show ?thesis
    using packLoop_terminates[of "exArr 130" "''T''" "''I''" "[]" "[]" exScratch]
    unfolding h u
    by (simp add: headState_def batchSize_def maxQuadsPerDrawCall_def exArr_def)
qed

section \<open>C10: the index buffer stays within the vertex template\<close>

text \<open>
  C10: the index buffer of the quad template holds \<open>3 * 128\<close> indices, the vertex buffer
  holds the 256 vertices of two \<open>int16\<close> each, and every index stored is below 256. The
  loop of lines 80 to 89 runs 128 rounds of six writes, but the rounds from 64 on write
  past the end of the view and change nothing: the buffer is what the first 64 rounds
  leave.
\<close>

theorem indexBuffer2_in_template:
  "length indexBuffer2_array = 3 * 128 \<and>
   length vertexBuffer2_array = 2 * 256 \<and>
   (\<forall>j < length indexBuffer2_array.
      unat (indexBuffer2_array ! j) < length vertexBuffer2_array div 2) \<and>
   indexBuffer2_array = indexLoop 0 64 (StructArrayLayout3ui6_resized 128) \<and>
   (\<forall>i n. 64 \<le> i \<longrightarrow> indexLoop i n indexBuffer2_array = indexBuffer2_array)"
proof -
  have b: "unat (indexBuffer2_array ! j) < 256" if "j < 384" for j
  proof -
    have r: "j mod 6 < 6" by simp
    have "[0, 1, 2, 2, 3, 0::nat] ! (j mod 6) \<le> 3"
      using r by (auto simp: nth_Cons')
    moreover have "j div 6 < 64" using that by simp
    ultimately show ?thesis
      unfolding indexBuffer2_array_nth[OF that] unat_indexValue[OF that] by simp
  qed
  have z: "length (StructArrayLayout3ui6_resized 128) = 384"
    by (simp add: StructArrayLayout3ui6_resized_def)
  have e: "indexBuffer2_array = indexLoop 0 64 (StructArrayLayout3ui6_resized 128)"
    using indexLoop_first_rounds[OF z]
    by (simp add: indexBuffer2_array_def maxQuadsPerDrawCall_def)
  show ?thesis
    using b e indexLoop_past_end[of _ indexBuffer2_array]
    by (simp add: length_indexBuffer2_array length_vertexBuffer2_array)
qed

theorem indexBuffer2_in_template_witness:
  "(383::nat) < length indexBuffer2_array \<and>
   unat (indexBuffer2_array ! 383) < length vertexBuffer2_array div 2 \<and>
   length vertexBuffer2_array div 2 = 256 \<and>
   indexLoop 64 128 indexBuffer2_array = indexBuffer2_array"
  using indexBuffer2_in_template by (simp add: length_indexBuffer2_array length_vertexBuffer2_array)


end
